theory Spec2Isabelle
  imports Main "HOL-Library.Word" "HOL-Library.AList"
begin

section \<open>Go strings and slices\<close>

text \<open>
  A Go string is a sequence of bytes, so it is a \<open>string\<close> (a list of 8-bit characters)
  and \<open>len\<close> is \<open>length\<close>. The functions of package \<open>strings\<close> that the resolver
  uses are written out on lists.
\<close>

definition HasPrefix :: "string \<Rightarrow> string \<Rightarrow> bool" where
  "HasPrefix s p = (length p \<le> length s \<and> take (length p) s = p)"

definition HasSuffix :: "string \<Rightarrow> string \<Rightarrow> bool" where
  "HasSuffix s p = (length p \<le> length s \<and> drop (length s - length p) s = p)"

fun Contains :: "string \<Rightarrow> string \<Rightarrow> bool" where
  "Contains [] sub = (sub = [])"
| "Contains (c # s) sub = (HasPrefix (c # s) sub \<or> Contains s sub)"

definition TrimPrefix :: "string \<Rightarrow> string \<Rightarrow> string" where
  "TrimPrefix s p = (if HasPrefix s p then drop (length p) s else s)"

definition TrimSuffix :: "string \<Rightarrow> string \<Rightarrow> string" where
  "TrimSuffix s p = (if HasSuffix s p then take (length s - length p) s else s)"

text \<open>
  A Go slice is either \<open>nil\<close> or a (possibly empty) sequence; \<open>reflect.DeepEqual\<close> and
  \<open>cmp.Equal\<close> tell the two apart. Where the code compares slices, a slice is a
  \<open>'a list option\<close> with \<open>None\<close> for \<open>nil\<close>; where it only ranges over them, a plain list.
\<close>

type_synonym 'a slice = "'a list option"

definition elems :: "'a slice \<Rightarrow> 'a list" where
  "elems s = (case s of None \<Rightarrow> [] | Some xs \<Rightarrow> xs)"

definition append1 :: "'a slice \<Rightarrow> 'a \<Rightarrow> 'a slice" where
  "append1 s x = Some (elems s @ [x])"

section \<open>The xDS client's update types\<close>

text \<open>
  Modelled from the spec: the declarations of package \<open>xdsclient\<close> (ListenerUpdate,
  RouteConfigUpdate, VirtualHost, Route, error kinds) are not among the sources; the
  records below carry the fields that the resolver and the cache read. A map whose
  keys are ranged over is an association list. Virtual hosts and routes are held
  through non-nil pointers, so they are values here.
\<close>

record Route =
  WeightedClusters :: "(string \<times> nat) list"

record VirtualHost =
  Domains :: "string list"
  Routes :: "Route list"

record ListenerUpdate =
  RouteConfigName :: string
  MaxStreamDuration :: int
  HTTPFilters :: "string list"

record RouteConfigUpdate =
  VirtualHosts :: "VirtualHost list"

record ClusterUpdate =
  ServiceName :: string

text \<open>
  Modelled from the spec: the endpoint types of its data model (section 3). The two
  \<open>Weight\<close> fields are \<open>Weight\<close> for a locality and \<open>EndpointWeight\<close> for an endpoint;
  \<open>uint32\<close> is \<open>32 word\<close>.
\<close>

datatype EndpointHealthStatus =
  EndpointHealthStatusUnknown
  | EndpointHealthStatusHealthy
  | EndpointHealthStatusUnhealthy
  | EndpointHealthStatusDraining
  | EndpointHealthStatusTimeout
  | EndpointHealthStatusDegraded

record Endpoint =
  Address :: string
  HealthStatus :: EndpointHealthStatus
  EndpointWeight :: "32 word"

record LocalityID =
  Region :: string
  Zone :: string
  SubZone :: string

record Locality =
  ID :: LocalityID
  Endpoints :: "Endpoint list"
  Weight :: "32 word"
  Priority :: "32 word"

record OverloadDropConfig =
  Category :: string
  Numerator :: "32 word"
  Denominator :: "32 word"

record EndpointsUpdate =
  Drops :: "OverloadDropConfig slice"
  Localities :: "Locality slice"

definition EndpointsUpdate0 :: EndpointsUpdate where
  "EndpointsUpdate0 = \<lparr>Drops = None, Localities = None\<rparr>"

datatype ErrorType =
  ErrorTypeUnknown | ErrorTypeConnection | ErrorTypeResourceNotFound

text \<open>
  Go errors. \<open>Status c m\<close> is \<open>status.Errorf(c, m)\<close> with a literal text, and
  \<open>StatusOf c e\<close> is \<open>status.Errorf(c, e.Error())\<close>, the status that carries the text
  of \<open>e\<close>. The other constructors name the errors the sources create.
\<close>

datatype code = Unavailable | OtherCode nat

datatype error =
  XdsError ErrorType string
  | ErrNoMatchingVirtualHost string
  | ErrResourceNotFound
  | ErrLocalityWithoutID
  | ErrPriorityMissing nat
  | ErrMaxRequestsExceeded "32 word"
  | ErrAllPrioritiesRemoved
  | Status code string
  | StatusOf code error
  | OtherError string

text \<open>What running a function gives: a panic of the Go runtime, or its results.\<close>

datatype panic = IndexOutOfRange nat nat | InterfaceConversionNil

datatype 'a outcome = Panicked panic | Returned 'a

fun bind :: "'a outcome \<Rightarrow> ('a \<Rightarrow> 'b outcome) \<Rightarrow> 'b outcome" where
  "bind (Panicked p) f = Panicked p"
| "bind (Returned x) f = f x"

text \<open>Indexing a slice, with the bounds check of the runtime.\<close>

definition index :: "'a list \<Rightarrow> nat \<Rightarrow> 'a outcome" where
  "index xs i = (if i < length xs then Returned (xs ! i) else Panicked (IndexOutOfRange i (length xs)))"

fun ErrType :: "error \<Rightarrow> ErrorType" where
  "ErrType (XdsError t m) = t"
| "ErrType e = ErrorTypeUnknown"

section \<open>The domain matcher (watch\_service.go)\<close>

datatype domainMatchType =
  domainMatchTypeInvalid
  | domainMatchTypeUniversal
  | domainMatchTypePrefix
  | domainMatchTypeSuffix
  | domainMatchTypeExact

text \<open>The constants are declared with \<open>iota\<close>, in this order.\<close>

fun iota :: "domainMatchType \<Rightarrow> nat" where
  "iota domainMatchTypeInvalid = 0"
| "iota domainMatchTypeUniversal = 1"
| "iota domainMatchTypePrefix = 2"
| "iota domainMatchTypeSuffix = 3"
| "iota domainMatchTypeExact = 4"

definition betterThan :: "domainMatchType \<Rightarrow> domainMatchType \<Rightarrow> bool" where
  "betterThan t b = (iota t > iota b)"

definition matchTypeForDomain :: "string \<Rightarrow> domainMatchType" where
  "matchTypeForDomain d =
     (if d = [] then domainMatchTypeInvalid
      else if d = ''*'' then domainMatchTypeUniversal
      else if HasPrefix d ''*'' then domainMatchTypeSuffix
      else if HasSuffix d ''*'' then domainMatchTypePrefix
      else if Contains d ''*'' then domainMatchTypeInvalid
      else domainMatchTypeExact)"

definition match :: "string \<Rightarrow> string \<Rightarrow> domainMatchType \<times> bool" where
  "match domain host =
     (case matchTypeForDomain domain of
        domainMatchTypeInvalid \<Rightarrow> (domainMatchTypeInvalid, False)
      | domainMatchTypeUniversal \<Rightarrow> (domainMatchTypeUniversal, True)
      | domainMatchTypePrefix \<Rightarrow>
          (domainMatchTypePrefix, HasPrefix host (TrimSuffix domain ''*''))
      | domainMatchTypeSuffix \<Rightarrow>
          (domainMatchTypeSuffix, HasSuffix host (TrimPrefix domain ''*''))
      | domainMatchTypeExact \<Rightarrow> (domainMatchTypeExact, domain = host))"

text \<open>
  The loop state of \<open>findBestMatchingVirtualHost\<close>: \<open>matchVh\<close>, \<open>matchType\<close> and
  \<open>matchLen\<close>. The inner loop returns \<open>None\<close> where the source leaves the function
  with \<open>return nil\<close>.
\<close>

type_synonym matchState = "VirtualHost option \<times> domainMatchType \<times> nat"

fun domainsLoop :: "string \<Rightarrow> VirtualHost \<Rightarrow> string list \<Rightarrow> matchState \<Rightarrow> matchState option" where
  "domainsLoop host vh [] st = Some st"
| "domainsLoop host vh (domain # ds) (matchVh, matchType, matchLen) =
     (case match domain host of (typ, matched) \<Rightarrow>
        if typ = domainMatchTypeInvalid then None
        else if betterThan matchType typ
                \<or> matchType = typ \<and> matchLen \<ge> length domain
                \<or> \<not> matched
        then domainsLoop host vh ds (matchVh, matchType, matchLen)
        else domainsLoop host vh ds (Some vh, typ, length domain))"

fun vHostsLoop :: "string \<Rightarrow> VirtualHost list \<Rightarrow> matchState \<Rightarrow> VirtualHost option" where
  "vHostsLoop host [] st = fst st"
| "vHostsLoop host (vh # vhs) st =
     (case domainsLoop host vh (Domains vh) st of
        None \<Rightarrow> None
      | Some st' \<Rightarrow> vHostsLoop host vhs st')"

definition findBestMatchingVirtualHost :: "string \<Rightarrow> VirtualHost list \<Rightarrow> VirtualHost option" where
  "findBestMatchingVirtualHost host vHosts =
     vHostsLoop host vHosts (None, domainMatchTypeInvalid, 0)"

section \<open>The service watcher (watch\_service.go)\<close>

record ldsConfig =
  maxStreamDuration :: int
  httpFilterConfig :: "string list"

record serviceUpdate =
  virtualHost :: "VirtualHost option"
  ldsConfig :: ldsConfig

definition serviceUpdate0 :: serviceUpdate where
  "serviceUpdate0 =
     \<lparr>virtualHost = None, ldsConfig = \<lparr>maxStreamDuration = 0, httpFilterConfig = []\<rparr>\<rparr>"

text \<open>
  The calls the watcher makes on its collaborators (the xDS client and the service
  callback), in the order it makes them. A cancel function is identified by the
  position of the call that returned it.
\<close>

datatype watcherCall =
  WatchListener string
  | WatchRouteConfig string
  | CancelListener
  | CancelRouteConfig nat
  | ServiceCb serviceUpdate "error option"

record serviceUpdateWatcher =
  serviceName :: string
  lastUpdate :: serviceUpdate
  closed :: bool
  rdsName :: string
  rdsCancel :: "nat option"
  calls :: "watcherCall list"

definition call :: "watcherCall \<Rightarrow> serviceUpdateWatcher \<Rightarrow> serviceUpdateWatcher" where
  "call c w = w\<lparr>calls := calls w @ [c]\<rparr>"

definition watchService :: "string \<Rightarrow> serviceUpdateWatcher" where
  "watchService name =
     \<lparr>serviceName = name, lastUpdate = serviceUpdate0, closed = False,
      rdsName = [], rdsCancel = None, calls = [WatchListener name]\<rparr>"

definition handleLDSResp ::
  "serviceUpdateWatcher \<Rightarrow> ListenerUpdate \<Rightarrow> error option \<Rightarrow> serviceUpdateWatcher" where
  "handleLDSResp w update err =
     (if closed w then w
      else case err of
        Some e \<Rightarrow>
          (let w1 = (case rdsCancel w of
                       Some c \<Rightarrow>
                         if ErrType e = ErrorTypeResourceNotFound
                         then (call (CancelRouteConfig c) w)
                                \<lparr>rdsName := [], rdsCancel := None, lastUpdate := serviceUpdate0\<rparr>
                         else w
                     | None \<Rightarrow> w)
           in call (ServiceCb serviceUpdate0 (Some e)) w1)
      | None \<Rightarrow>
          (let w1 = w\<lparr>lastUpdate := (lastUpdate w)
                        \<lparr>ldsConfig := \<lparr>maxStreamDuration = MaxStreamDuration update,
                                       httpFilterConfig = HTTPFilters update\<rparr>\<rparr>\<rparr>
           in if rdsName w1 = RouteConfigName update
              then call (ServiceCb (lastUpdate w1) None) w1
              else
                (let w2 = w1\<lparr>rdsName := RouteConfigName update\<rparr>;
                     w3 = (case rdsCancel w2 of
                             Some c \<Rightarrow> call (CancelRouteConfig c) w2
                           | None \<Rightarrow> w2)
                 in (call (WatchRouteConfig (RouteConfigName update)) w3)
                      \<lparr>rdsCancel := Some (length (calls w3))\<rparr>)))"

definition handleRDSResp ::
  "serviceUpdateWatcher \<Rightarrow> RouteConfigUpdate \<Rightarrow> error option \<Rightarrow> serviceUpdateWatcher" where
  "handleRDSResp w update err =
     (if closed w then w
      else if rdsCancel w = None then w
      else case err of
        Some e \<Rightarrow> call (ServiceCb serviceUpdate0 (Some e)) w
      | None \<Rightarrow>
          (case findBestMatchingVirtualHost (serviceName w) (VirtualHosts update) of
             None \<Rightarrow>
               call (ServiceCb serviceUpdate0 (Some (ErrNoMatchingVirtualHost (serviceName w)))) w
           | Some matchVh \<Rightarrow>
               (let w1 = w\<lparr>lastUpdate := (lastUpdate w)\<lparr>virtualHost := Some matchVh\<rparr>\<rparr>
                in call (ServiceCb (lastUpdate w1) None) w1)))"

definition close :: "serviceUpdateWatcher \<Rightarrow> serviceUpdateWatcher" where
  "close w =
     (let w1 = call CancelListener (w\<lparr>closed := True\<rparr>)
      in case rdsCancel w1 of
           Some c \<Rightarrow> (call (CancelRouteConfig c) w1)\<lparr>rdsCancel := None\<rparr>
         | None \<Rightarrow> w1)"

text \<open>The states a watcher can be in: created by \<open>watchService\<close>, then driven by callbacks
  and \<open>close\<close>.\<close>

inductive reachable :: "serviceUpdateWatcher \<Rightarrow> bool" where
  init: "reachable (watchService name)"
| lds: "reachable w \<Longrightarrow> reachable (handleLDSResp w update err)"
| rds: "reachable w \<Longrightarrow> reachable (handleRDSResp w rupdate err)"
| cls: "reachable w \<Longrightarrow> reachable (close w)"

section \<open>The client cache (package cache)\<close>

text \<open>
  The four caches are Go maps that are only looked up, so they are partial functions.
  \<open>FindEndpointsByListenerName\<close> returns a pointer and an error; exactly one of them is
  nil on every return, which is the sum \<open>error + EndpointsUpdate\<close>. The condition of
  its \<open>if\<close> is evaluated left to right with the short circuit of \<open>&&\<close>, and every
  index expression goes through the bounds check. The loop over \<open>WeightedClusters\<close>
  stops at the first key that the range yields, here the first of the association
  list; with no key the cluster name stays empty.
\<close>

record UpdateCache =
  LDSCache :: "string \<rightharpoonup> ListenerUpdate"
  RDSCache :: "string \<rightharpoonup> RouteConfigUpdate"
  CDSCache :: "string \<rightharpoonup> ClusterUpdate"
  EDSCache :: "string \<rightharpoonup> EndpointsUpdate"

definition FindEndpointsByListenerName ::
  "UpdateCache \<Rightarrow> string \<Rightarrow> (error + EndpointsUpdate) outcome" where
  "FindEndpointsByListenerName u name =
     (case LDSCache u name of
        None \<Rightarrow> Returned (Inl ErrResourceNotFound)
      | Some ls \<Rightarrow>
     (case RDSCache u (RouteConfigName ls) of
        None \<Rightarrow> Returned (Inl ErrResourceNotFound)
      | Some rt \<Rightarrow>
          bind (if length (VirtualHosts rt) \<le> 0
                then bind (index (VirtualHosts rt) 0) (\<lambda>vh. Returned (length (Routes vh) \<le> 0))
                else Returned False)
            (\<lambda>notFound.
               if notFound then Returned (Inl ErrResourceNotFound)
               else
                 bind (index (VirtualHosts rt) 0) (\<lambda>vh.
                 bind (index (Routes vh) 0) (\<lambda>route.
                   let cluster = (case WeightedClusters route of
                                    [] \<Rightarrow> []
                                  | (key, v) # rest \<Rightarrow> key)
                   in case CDSCache u cluster of
                        None \<Rightarrow> Returned (Inl ErrResourceNotFound)
                      | Some cs \<Rightarrow>
                          (case EDSCache u (ServiceName cs) of
                             None \<Rightarrow> Returned (Inl ErrResourceNotFound)
                           | Some es \<Rightarrow> Returned (Inr es)))))))"
section \<open>Parsing an EDS response (package edsbalancer)\<close>

text \<open>
  The protobuf messages, with the fields the parser reads. A message field that may be
  nil is an \<open>option\<close>, and its getter returns the zero value for nil. The message
  \<open>Locality\<close> has the three fields of \<open>LocalityID\<close> and shares its record; the health
  status enumerations of the message and of the client have the same values.
\<close>

datatype DenominatorType = HUNDRED | TEN_THOUSAND | MILLION | UnknownDenominator

record SocketAddress =
  SocketAddr :: string
  PortValue :: "32 word"

record LbEndpoint =
  LbHealthStatus :: EndpointHealthStatus
  LbSocketAddress :: "SocketAddress option"
  LbLoadBalancingWeight :: "32 word option"

record LocalityLbEndpoints =
  GetLocality :: "LocalityID option"
  LbEndpoints :: "LbEndpoint list"
  LoadBalancingWeight :: "32 word option"
  GetPriority :: "32 word"

record FractionalPercent =
  PercentNumerator :: "32 word"
  PercentDenominator :: DenominatorType

record DropOverload =
  DropCategory :: string
  DropPercentage :: "FractionalPercent option"

record ClusterLoadAssignment =
  LocalityEndpoints :: "LocalityLbEndpoints list"
  DropOverloads :: "DropOverload list"

definition GetValue :: "32 word option \<Rightarrow> 32 word" where
  "GetValue v = (case v of None \<Rightarrow> 0 | Some x \<Rightarrow> x)"

text \<open>\<open>strconv.Itoa\<close> and \<open>net.JoinHostPort\<close> of the standard library.\<close>

definition digit :: "nat \<Rightarrow> char" where
  "digit n = ''0123456789'' ! (n mod 10)"

function decimal :: "nat \<Rightarrow> string" where
  "decimal n = (if n < 10 then [digit n] else decimal (n div 10) @ [digit n])"
  by pat_completeness auto
termination
  by (relation "measure id") auto

declare decimal.simps [simp del]

definition Itoa :: "int \<Rightarrow> string" where
  "Itoa i = (if i < 0 then CHR ''-'' # decimal (nat (- i)) else decimal (nat i))"

definition JoinHostPort :: "string \<Rightarrow> string \<Rightarrow> string" where
  "JoinHostPort host port =
     (if CHR '':'' \<in> set host then ''['' @ host @ '']:'' @ port else host @ '':'' @ port)"

definition parseAddress :: "SocketAddress option \<Rightarrow> string" where
  "parseAddress socketAddress =
     (case socketAddress of
        None \<Rightarrow> JoinHostPort [] (Itoa 0)
      | Some a \<Rightarrow> JoinHostPort (SocketAddr a) (Itoa (uint (PortValue a))))"

definition parseDropPolicy :: "DropOverload \<Rightarrow> OverloadDropConfig" where
  "parseDropPolicy dropPolicy =
     (let numerator = (case DropPercentage dropPolicy of
                         None \<Rightarrow> 0 | Some pc \<Rightarrow> PercentNumerator pc);
          denominator =
            (case (case DropPercentage dropPolicy of
                     None \<Rightarrow> HUNDRED | Some pc \<Rightarrow> PercentDenominator pc) of
               HUNDRED \<Rightarrow> 100
             | TEN_THOUSAND \<Rightarrow> 10000
             | MILLION \<Rightarrow> 1000000
             | UnknownDenominator \<Rightarrow> 0)
      in \<lparr>Category = DropCategory dropPolicy, Numerator = numerator, Denominator = denominator\<rparr>)"

fun parseEndpointsLoop :: "LbEndpoint list \<Rightarrow> Endpoint list \<Rightarrow> Endpoint list" where
  "parseEndpointsLoop [] endpoints = endpoints"
| "parseEndpointsLoop (lbEndpoint # rest) endpoints =
     parseEndpointsLoop rest
       (endpoints @ [\<lparr>Address = parseAddress (LbSocketAddress lbEndpoint),
                      HealthStatus = LbHealthStatus lbEndpoint,
                      EndpointWeight = GetValue (LbLoadBalancingWeight lbEndpoint)\<rparr>])"

definition parseEndpoints :: "LbEndpoint list \<Rightarrow> Endpoint list" where
  "parseEndpoints lbEndpoints = parseEndpointsLoop lbEndpoints []"

fun dropPoliciesLoop :: "DropOverload list \<Rightarrow> OverloadDropConfig slice \<Rightarrow> OverloadDropConfig slice" where
  "dropPoliciesLoop [] drops = drops"
| "dropPoliciesLoop (dropPolicy # rest) drops = dropPoliciesLoop rest (append1 drops (parseDropPolicy dropPolicy))"

text \<open>
  The loop over the localities carries \<open>ret.Localities\<close> and the set \<open>priorities\<close>;
  it stops with the error at the first locality that has no ID.
\<close>

fun parseLocalitiesLoop ::
  "LocalityLbEndpoints list \<Rightarrow> Locality slice \<times> 32 word set \<Rightarrow> error + Locality slice \<times> 32 word set" where
  "parseLocalitiesLoop [] st = Inr st"
| "parseLocalitiesLoop (locality # rest) (localities, priorities) =
     (case GetLocality locality of
        None \<Rightarrow> Inl ErrLocalityWithoutID
      | Some l \<Rightarrow>
          (let lid = \<lparr>Region = Region l, Zone = Zone l, SubZone = SubZone l\<rparr>;
               priority = GetPriority locality
           in parseLocalitiesLoop rest
                (append1 localities
                   \<lparr>ID = lid,
                    Endpoints = parseEndpoints (LbEndpoints locality),
                    Weight = GetValue (LoadBalancingWeight locality),
                    Priority = priority\<rparr>,
                 insert priority priorities)))"

text \<open>The loop \<open>for i := 0; i < len(priorities); i++\<close>, from \<open>i\<close> on: the first missing priority.\<close>

function priorityCheck :: "32 word set \<Rightarrow> nat \<Rightarrow> nat option" where
  "priorityCheck priorities i =
     (if i < card priorities
      then (if word_of_nat i \<in> priorities then priorityCheck priorities (Suc i) else Some i)
      else None)"
  by pat_completeness auto
termination
  by (relation "measure (\<lambda>(priorities, i). card priorities - i)") auto

declare priorityCheck.simps [simp del]

definition parseEDSRespProto :: "ClusterLoadAssignment \<Rightarrow> EndpointsUpdate \<times> error option" where
  "parseEDSRespProto m =
     (let drops = dropPoliciesLoop (DropOverloads m) None
      in case parseLocalitiesLoop (LocalityEndpoints m) (None, {}) of
           Inl err \<Rightarrow> (EndpointsUpdate0, Some err)
         | Inr (localities, priorities) \<Rightarrow>
             (case priorityCheck priorities 0 of
                Some i \<Rightarrow> (EndpointsUpdate0, Some (ErrPriorityMissing i))
              | None \<Rightarrow> (\<lparr>Drops = drops, Localities = localities\<rparr>, None)))"
section \<open>Droppers and the drop picker (util.go, eds\_impl.go)\<close>

text \<open>
  Modelled from the spec: the random weighted round robin of package \<open>wrr\<close> is not
  among the sources. The spec describes it as the items with their cumulative weights
  plus a random sample in \<open>[0, total)\<close>. Here it is the list of the items with their
  weights in the order they were added, and \<open>Next\<close> takes the sample that the random
  source draws: it returns the first item whose cumulative weight lies above the
  sample, and nil when there is none (a sample that is not below the total; with a
  total of 0 no sample is).
\<close>

type_synonym 'a WRR = "('a \<times> int) list"

definition newRandomWRR :: "'a WRR" where
  "newRandomWRR = []"

definition Add :: "'a WRR \<Rightarrow> 'a \<Rightarrow> int \<Rightarrow> 'a WRR" where
  "Add w item weight = w @ [(item, weight)]"

fun Next :: "'a WRR \<Rightarrow> int \<Rightarrow> 'a option" where
  "Next [] sample = None"
| "Next ((item, weight) # rest) sample =
     (if sample < weight then Some item else Next rest (sample - weight))"

text \<open>
  A dropper: its configuration \<open>c\<close> and its selector \<open>w\<close>. The weights are
  \<open>int64\<close> conversions of \<open>uint32\<close> values; \<open>Denominator - Numerator\<close> is computed in
  \<open>uint32\<close> and wraps.
\<close>

record dropper =
  dropperC :: OverloadDropConfig
  dropperW :: "bool WRR"

definition newDropper :: "OverloadDropConfig \<Rightarrow> dropper" where
  "newDropper c =
     (let w0 = newRandomWRR;
          w1 = Add w0 True (uint (Numerator c));
          w2 = Add w1 False (uint (Denominator c - Numerator c))
      in \<lparr>dropperC = c, dropperW = w2\<rparr>)"

text \<open>\<open>d.w.Next().(bool)\<close>: the type assertion panics on nil.\<close>

definition dropperDrop :: "dropper \<Rightarrow> int \<Rightarrow> bool outcome" where
  "dropperDrop d sample =
     (case Next (dropperW d) sample of
        None \<Rightarrow> Panicked InterfaceConversionNil
      | Some ret \<Rightarrow> Returned ret)"

text \<open>
  The calls a pick makes on its collaborators: the load reporter, the service-request
  counter, the inner picker and the done callback of the inner picker. A done callback
  is a closure; \<open>InnerDone i\<close> is the callback number \<open>i\<close> of the inner picker, and
  \<open>CountedDone name oldDone\<close> is the closure that \<open>Pick\<close> builds around \<open>oldDone\<close> for
  the counter of service \<open>name\<close>. \<open>runDone\<close> calls a callback.
\<close>

datatype pickCall =
  CallDropped string
  | CallStartRequest string "32 word"
  | CallEndRequest string
  | CallPick string
  | CallDone nat string

datatype doneFn = InnerDone nat | CountedDone string "doneFn option"

record PickResult =
  SubConn :: "nat option"
  Done :: "doneFn option"

definition PickResult0 :: PickResult where
  "PickResult0 = \<lparr>SubConn = None, Done = None\<rparr>"

type_synonym Picker = "string \<Rightarrow> PickResult \<times> error option"

text \<open>
  Modelled from the spec: the service-request counters of package \<open>client\<close> are not
  among the sources. They live in a process-wide registry keyed by service name;
  \<open>StartRequest\<close> compares the number of requests in flight with the cap and
  increments it, or fails when the cap is reached; \<open>EndRequest\<close> decrements it.
\<close>

record pickState =
  numRequests :: "string \<Rightarrow> 32 word"
  pickCalls :: "pickCall list"

definition logCall :: "pickCall \<Rightarrow> pickState \<Rightarrow> pickState" where
  "logCall c s = s\<lparr>pickCalls := pickCalls s @ [c]\<rparr>"

definition StartRequest :: "string \<Rightarrow> 32 word \<Rightarrow> pickState \<Rightarrow> error option \<times> pickState" where
  "StartRequest name maxRequests s =
     (let s1 = logCall (CallStartRequest name maxRequests) s
      in if numRequests s1 name \<ge> maxRequests then (Some (ErrMaxRequestsExceeded maxRequests), s1)
         else (None, s1\<lparr>numRequests := (numRequests s1)(name := numRequests s1 name + 1)\<rparr>))"

definition EndRequest :: "string \<Rightarrow> pickState \<Rightarrow> pickState" where
  "EndRequest name s =
     (let s1 = logCall (CallEndRequest name) s
      in s1\<lparr>numRequests := (numRequests s1)(name := numRequests s1 name - 1)\<rparr>)"

fun runDone :: "doneFn \<Rightarrow> string \<Rightarrow> pickState \<Rightarrow> pickState" where
  "runDone (InnerDone i) doneInfo s = logCall (CallDone i doneInfo) s"
| "runDone (CountedDone name oldDone) doneInfo s =
     (let s1 = EndRequest name s
      in case oldDone of None \<Rightarrow> s1 | Some f \<Rightarrow> runDone f doneInfo s1)"

text \<open>
  The drop picker. \<open>loadStore\<close> tells whether a load reporter is present; \<open>counter\<close>
  is the service name of the counter, or nil.
\<close>

record dropPicker =
  dpDrops :: "dropper list"
  dpPicker :: Picker
  loadStore :: bool
  counter :: "string option"
  countMax :: "32 word"

definition newDropPicker ::
  "Picker \<Rightarrow> dropper list \<Rightarrow> bool \<Rightarrow> string option \<Rightarrow> 32 word \<Rightarrow> dropPicker" where
  "newDropPicker p drops loadStore' counter' countMax' =
     \<lparr>dpDrops = drops, dpPicker = p, loadStore = loadStore', counter = counter',
      countMax = countMax'\<rparr>"

text \<open>
  The loop over the droppers; the \<open>n\<close>-th roll of a pick takes the \<open>n\<close>-th sample of
  the random source. It gives \<open>drop\<close> and \<open>category\<close>.
\<close>

fun droppersLoop :: "dropper list \<Rightarrow> (nat \<Rightarrow> int) \<Rightarrow> nat \<Rightarrow> (bool \<times> string) outcome" where
  "droppersLoop [] rnd n = Returned (False, [])"
| "droppersLoop (dp # rest) rnd n =
     (case dropperDrop dp (rnd n) of
        Panicked e \<Rightarrow> Panicked e
      | Returned True \<Rightarrow> Returned (True, Category (dropperC dp))
      | Returned False \<Rightarrow> droppersLoop rest rnd (Suc n))"

definition Pick ::
  "dropPicker \<Rightarrow> (nat \<Rightarrow> int) \<Rightarrow> string \<Rightarrow> pickState
     \<Rightarrow> ((PickResult \<times> error option) \<times> pickState) outcome" where
  "Pick d rnd info s =
     bind (droppersLoop (dpDrops d) rnd 0) (\<lambda>(drop, category).
       if drop
       then Returned ((PickResult0, Some (Status Unavailable ''RPC is dropped'')),
                      if loadStore d then logCall (CallDropped category) s else s)
       else
         (case counter d of
            Some name \<Rightarrow>
              (case StartRequest name (countMax d) s of
                 (Some err, s1) \<Rightarrow>
                   Returned ((PickResult0, Some (StatusOf Unavailable err)),
                             if loadStore d then logCall (CallDropped []) s1 else s1)
               | (None, s1) \<Rightarrow>
                   (let s2 = logCall (CallPick info) s1
                    in case dpPicker d info of
                         (pr, Some err) \<Rightarrow> Returned ((pr, Some err), EndRequest name s2)
                       | (pr, None) \<Rightarrow>
                           Returned ((pr\<lparr>Done := Some (CountedDone name (Done pr))\<rparr>, None), s2)))
          | None \<Rightarrow> Returned (dpPicker d info, logCall (CallPick info) s)))"
section \<open>The EDS balancer (eds\_impl.go)\<close>

text \<open>
  Modelled from the spec: \<open>priorityType\<close> is declared in a file that is not among the
  sources. A priority is an unsigned integer, 0 the highest, with an unset value that
  is distinct from priority 0.
\<close>

type_synonym priorityType = "32 word option"

definition newPriorityType :: "32 word \<Rightarrow> priorityType" where
  "newPriorityType p = Some p"

definition isSet :: "priorityType \<Rightarrow> bool" where
  "isSet p = (p \<noteq> None)"

definition higherThan :: "priorityType \<Rightarrow> priorityType \<Rightarrow> bool" where
  "higherThan p p2 = (case (p, p2) of (Some a, Some b) \<Rightarrow> a < b | _ \<Rightarrow> False)"

text \<open>
  Modelled from the spec: the types of the host library. A resolved address carries
  the weight that \<open>weightedroundrobin.SetAddrInfo\<close> attaches in \<open>Attributes\<close>, and
  \<open>Metadata\<close> points to the same weight information. A picker that the balancer
  publishes is the error picker of \<open>base.NewErrPicker\<close>, which returns its error on
  every pick, or a drop picker; the pickers of the child balancers are functions.
\<close>

datatype connectivityState = Idle | Connecting | Ready | TransientFailure | Shutdown

record resolverAddress =
  Addr :: string
  Attributes :: "32 word option"
  Metadata :: "32 word option"

definition weightedroundrobinName :: string where
  "weightedroundrobinName = ''weighted_round_robin''"

definition SetAddrInfo :: "resolverAddress \<Rightarrow> 32 word \<Rightarrow> resolverAddress" where
  "SetAddrInfo addr ai = addr\<lparr>Attributes := Some ai\<rparr>"

datatype balancerPicker = ErrPicker error | DropPicker dropPicker

fun balancerPick ::
  "balancerPicker \<Rightarrow> (nat \<Rightarrow> int) \<Rightarrow> string \<Rightarrow> pickState
     \<Rightarrow> ((PickResult \<times> error option) \<times> pickState) outcome" where
  "balancerPick (ErrPicker err) rnd info s = Returned ((PickResult0, Some err), s)"
| "balancerPick (DropPicker d) rnd info s = Pick d rnd info s"

record balancerState =
  ConnectivityState :: connectivityState
  Picker :: "Picker option"

text \<open>
  The calls the balancer makes on its collaborators: the client connection, the
  balancer group and the aggregator of a priority (named by the priority they were
  created for), and the priority manager. \<open>NewGroup\<close> stands for the creation of the
  wrapper, the aggregator and the balancer group of a priority.
\<close>

datatype edsCall =
  UpdateState connectivityState balancerPicker
  | NewGroup priorityType
  | AggregatorAdd priorityType string "32 word"
  | AggregatorRemove priorityType string
  | AggregatorUpdateWeight priorityType string "32 word"
  | AggregatorBuildAndUpdate priorityType
  | GroupAdd priorityType string string
  | GroupRemove priorityType string
  | GroupUpdateClientConnState priorityType string "resolverAddress slice"
  | GroupClose priorityType
  | HandlePriorityChange

record localityConfig =
  weight :: "32 word"
  addrs :: "resolverAddress slice"

text \<open>
  The maps of the balancer are ranged over, so they are association lists, ranged over
  in the order of insertion (Go leaves the order open). The map \<open>configs\<close> holds
  pointers; a write through such a pointer is an update of the entry.
\<close>

record balancerGroupWithConfig =
  bg :: priorityType
  stateAggregator :: priorityType
  configs :: "(LocalityID \<times> localityConfig) list"

record edsBalancerImpl =
  loadReporter :: bool
  subBalancerBuilder :: string
  priorityToLocalities :: "(priorityType \<times> balancerGroupWithConfig) list"
  respReceived :: bool
  priorityLowest :: priorityType
  priorityToState :: "(priorityType \<times> balancerState) list"
  dropConfig :: "OverloadDropConfig slice"
  drops :: "dropper list"
  innerState :: balancerState
  serviceRequestsCounter :: "string option"
  serviceRequestCountMax :: "32 word"
  edsCalls :: "edsCall list"

definition emit :: "edsCall list \<Rightarrow> edsBalancerImpl \<Rightarrow> edsBalancerImpl" where
  "emit cs e = e\<lparr>edsCalls := edsCalls e @ cs\<rparr>"

fun newDropsLoop :: "OverloadDropConfig list \<Rightarrow> dropper list \<Rightarrow> dropper list" where
  "newDropsLoop [] newDrops = newDrops"
| "newDropsLoop (c # rest) newDrops = newDropsLoop rest (newDrops @ [newDropper c])"

definition updateDrops :: "edsBalancerImpl \<Rightarrow> OverloadDropConfig slice \<Rightarrow> edsBalancerImpl" where
  "updateDrops e dropConfig' =
     (if dropConfig' = dropConfig e then e
      else
        (let e1 = e\<lparr>dropConfig := dropConfig'\<rparr>;
             newDrops = newDropsLoop (elems (dropConfig e1)) [];
             e2 = e1\<lparr>drops := newDrops\<rparr>
         in case Picker (innerState e2) of
              None \<Rightarrow> e2
            | Some p \<Rightarrow>
                emit [UpdateState (ConnectivityState (innerState e2))
                        (DropPicker (newDropPicker p newDrops (loadReporter e2)
                           (serviceRequestsCounter e2) (serviceRequestCountMax e2)))] e2))"

text \<open>The loop over the endpoints of a locality, for the child policy \<open>name\<close>.\<close>

fun addrsLoop :: "string \<Rightarrow> Endpoint list \<Rightarrow> resolverAddress slice \<Rightarrow> resolverAddress slice" where
  "addrsLoop name [] newAddrs = newAddrs"
| "addrsLoop name (lbEndpoint # rest) newAddrs =
     (if HealthStatus lbEndpoint \<noteq> EndpointHealthStatusHealthy
         \<and> HealthStatus lbEndpoint \<noteq> EndpointHealthStatusUnknown
      then addrsLoop name rest newAddrs
      else
        (let address = \<lparr>Addr = Address lbEndpoint, Attributes = None, Metadata = None\<rparr>;
             address' =
               (if name = weightedroundrobinName \<and> EndpointWeight lbEndpoint \<noteq> 0
                then (SetAddrInfo address (EndpointWeight lbEndpoint))
                       \<lparr>Metadata := Some (EndpointWeight lbEndpoint)\<rparr>
                else address)
         in addrsLoop name rest (append1 newAddrs address')))"

text \<open>
  \<open>handleEDSResponsePerPriority\<close>. \<open>ToString\<close> of a locality ID is not among the
  sources and is the parameter \<open>ts\<close>. The state of the first loop is the group with
  its configs, the set \<open>newLocalitiesSet\<close>, the flag \<open>rebuildStateAndPicker\<close> and the
  calls made so far; the second loop ranges over the keys that \<open>configs\<close> has when it
  starts. The function gives the group as it leaves it and the calls it made.
\<close>

type_synonym perPriorityState =
  "balancerGroupWithConfig \<times> LocalityID set \<times> bool \<times> edsCall list"

definition localityStep ::
  "(LocalityID \<Rightarrow> error + string) \<Rightarrow> string \<Rightarrow> perPriorityState \<Rightarrow> Locality \<Rightarrow> perPriorityState" where
  "localityStep ts name st locality =
     (case st of (bgwc, newLocalitiesSet, rebuildStateAndPicker, cs) \<Rightarrow>
        (let lid = ID locality
         in case ts lid of
              Inl err \<Rightarrow> st
            | Inr lidJSON \<Rightarrow>
                (let newLocalitiesSet' = insert lid newLocalitiesSet;
                     newWeight = Weight locality;
                     newAddrs = addrsLoop name (Endpoints locality) None;
                     (config, bgwc1, cs1, weightChanged, addrsChanged) =
                       (case map_of (configs bgwc) lid of
                          None \<Rightarrow>
                            (let config = \<lparr>weight = newWeight, addrs = None\<rparr>
                             in (config,
                                 bgwc\<lparr>configs := AList.update lid config (configs bgwc)\<rparr>,
                                 cs @ [AggregatorAdd (stateAggregator bgwc) lidJSON newWeight,
                                       GroupAdd (bg bgwc) lidJSON name],
                                 False, True))
                        | Some config \<Rightarrow>
                            (config, bgwc, cs, weight config \<noteq> newWeight, addrs config \<noteq> newAddrs));
                     (config2, bgwc2, cs2, rebuild2) =
                       (if weightChanged
                        then (let config' = config\<lparr>weight := newWeight\<rparr>
                              in (config',
                                  bgwc1\<lparr>configs := AList.update lid config' (configs bgwc1)\<rparr>,
                                  cs1 @ [AggregatorUpdateWeight (stateAggregator bgwc1) lidJSON newWeight],
                                  True))
                        else (config, bgwc1, cs1, rebuildStateAndPicker));
                     (bgwc3, cs3) =
                       (if addrsChanged
                        then (let config' = config2\<lparr>addrs := newAddrs\<rparr>
                              in (bgwc2\<lparr>configs := AList.update lid config' (configs bgwc2)\<rparr>,
                                  cs2 @ [GroupUpdateClientConnState (bg bgwc2) lidJSON newAddrs]))
                        else (bgwc2, cs2))
                 in (bgwc3, newLocalitiesSet', rebuild2, cs3))))"

fun localitiesLoop ::
  "(LocalityID \<Rightarrow> error + string) \<Rightarrow> string \<Rightarrow> Locality list \<Rightarrow> perPriorityState \<Rightarrow> perPriorityState" where
  "localitiesLoop ts name [] st = st"
| "localitiesLoop ts name (locality # rest) st =
     localitiesLoop ts name rest (localityStep ts name st locality)"

fun deleteLocalitiesLoop ::
  "(LocalityID \<Rightarrow> error + string) \<Rightarrow> LocalityID set \<Rightarrow> LocalityID list
     \<Rightarrow> balancerGroupWithConfig \<times> bool \<times> edsCall list
     \<Rightarrow> balancerGroupWithConfig \<times> bool \<times> edsCall list" where
  "deleteLocalitiesLoop ts newLocalitiesSet [] st = st"
| "deleteLocalitiesLoop ts newLocalitiesSet (lid # rest) (bgwc, rebuildStateAndPicker, cs) =
     (case ts lid of
        Inl err \<Rightarrow> deleteLocalitiesLoop ts newLocalitiesSet rest (bgwc, rebuildStateAndPicker, cs)
      | Inr lidJSON \<Rightarrow>
          if lid \<notin> newLocalitiesSet
          then deleteLocalitiesLoop ts newLocalitiesSet rest
                 (bgwc\<lparr>configs := AList.delete lid (configs bgwc)\<rparr>, True,
                  cs @ [AggregatorRemove (stateAggregator bgwc) lidJSON,
                        GroupRemove (bg bgwc) lidJSON])
          else deleteLocalitiesLoop ts newLocalitiesSet rest (bgwc, rebuildStateAndPicker, cs))"

definition handleEDSResponsePerPriority ::
  "(LocalityID \<Rightarrow> error + string) \<Rightarrow> edsBalancerImpl \<Rightarrow> balancerGroupWithConfig \<Rightarrow> Locality list
     \<Rightarrow> balancerGroupWithConfig \<times> edsCall list" where
  "handleEDSResponsePerPriority ts e bgwc newLocalities =
     (case localitiesLoop ts (subBalancerBuilder e) newLocalities (bgwc, {}, False, []) of
        (bgwc1, newLocalitiesSet, rebuild1, cs1) \<Rightarrow>
          (case deleteLocalitiesLoop ts newLocalitiesSet (map fst (configs bgwc1))
                  (bgwc1, rebuild1, cs1) of
             (bgwc2, rebuild2, cs2) \<Rightarrow>
               (bgwc2, if rebuild2 then cs2 @ [AggregatorBuildAndUpdate (stateAggregator bgwc2)]
                       else cs2)))"

text \<open>
  \<open>handleEDSResponse\<close>: the bucketing of the localities by priority, the loop over the
  buckets, and the loop that deletes the priorities that are gone. The priority
  manager is not among the sources; its change handler is a call.
\<close>

fun bucketLoop ::
  "Locality list \<Rightarrow> (priorityType \<times> Locality list) list \<Rightarrow> (priorityType \<times> Locality list) list" where
  "bucketLoop [] m = m"
| "bucketLoop (locality # rest) m =
     (if Weight locality = 0 then bucketLoop rest m
      else
        (let priority = newPriorityType (Priority locality);
             old = (case map_of m priority of None \<Rightarrow> [] | Some ls \<Rightarrow> ls)
         in bucketLoop rest (AList.update priority (old @ [locality]) m)))"

fun prioritiesLoop ::
  "(LocalityID \<Rightarrow> error + string) \<Rightarrow> (priorityType \<times> Locality list) list
     \<Rightarrow> edsBalancerImpl \<times> priorityType \<times> bool \<Rightarrow> edsBalancerImpl \<times> priorityType \<times> bool" where
  "prioritiesLoop ts [] st = st"
| "prioritiesLoop ts ((priority, newLocalities) # rest) (e, priorityLowest', priorityChanged) =
     (let priorityLowest2 =
            (if \<not> isSet priorityLowest' \<or> higherThan priorityLowest' priority
             then priority else priorityLowest');
          (bgwc, e1, priorityChanged2) =
            (case map_of (priorityToLocalities e) priority of
               None \<Rightarrow>
                 (let bgwc = \<lparr>bg = priority, stateAggregator = priority, configs = []\<rparr>
                  in (bgwc,
                      (emit [NewGroup priority] e)
                        \<lparr>priorityToLocalities := AList.update priority bgwc (priorityToLocalities e)\<rparr>,
                      True))
             | Some bgwc \<Rightarrow> (bgwc, e, priorityChanged));
          (bgwc', cs) = handleEDSResponsePerPriority ts e1 bgwc newLocalities;
          e2 = (emit cs e1)
                 \<lparr>priorityToLocalities := AList.update priority bgwc' (priorityToLocalities e1)\<rparr>
      in prioritiesLoop ts rest (e2, priorityLowest2, priorityChanged2))"

fun deletePrioritiesLoop ::
  "(priorityType \<times> Locality list) list \<Rightarrow> priorityType list
     \<Rightarrow> edsBalancerImpl \<times> bool \<Rightarrow> edsBalancerImpl \<times> bool" where
  "deletePrioritiesLoop newLocalitiesWithPriority [] st = st"
| "deletePrioritiesLoop newLocalitiesWithPriority (p # rest) (e, priorityChanged) =
     (if map_of newLocalitiesWithPriority p = None
      then
        (case map_of (priorityToLocalities e) p of
           None \<Rightarrow> deletePrioritiesLoop newLocalitiesWithPriority rest (e, priorityChanged)
         | Some bgwc \<Rightarrow>
             deletePrioritiesLoop newLocalitiesWithPriority rest
               ((emit [GroupClose (bg bgwc)] e)
                  \<lparr>priorityToLocalities := AList.delete p (priorityToLocalities e),
                   priorityToState := AList.delete p (priorityToState e)\<rparr>,
                True))
      else deletePrioritiesLoop newLocalitiesWithPriority rest (e, priorityChanged))"

definition handleEDSResponse ::
  "(LocalityID \<Rightarrow> error + string) \<Rightarrow> edsBalancerImpl \<Rightarrow> EndpointsUpdate \<Rightarrow> edsBalancerImpl" where
  "handleEDSResponse ts e edsResp =
     (let e1 = (if \<not> respReceived e \<and> edsResp = EndpointsUpdate0
                then emit [UpdateState TransientFailure (ErrPicker ErrAllPrioritiesRemoved)] e
                else e);
          e2 = e1\<lparr>respReceived := True\<rparr>;
          e3 = updateDrops e2 (Drops edsResp);
          newLocalitiesWithPriority = bucketLoop (elems (Localities edsResp)) []
      in case prioritiesLoop ts newLocalitiesWithPriority (e3, None, False) of
           (e4, priorityLowest', priorityChanged) \<Rightarrow>
             (let e5 = e4\<lparr>priorityLowest := priorityLowest'\<rparr>
              in case deletePrioritiesLoop newLocalitiesWithPriority
                        (map fst (priorityToLocalities e5)) (e5, priorityChanged) of
                   (e6, priorityChanged') \<Rightarrow>
                     if priorityChanged' then emit [HandlePriorityChange] e6 else e6))"

text \<open>
  \<open>newEDSBalancerImpl\<close>: the balancer before its first response, with the round-robin
  child policy and the default cap on the requests in flight.
\<close>

definition roundrobinName :: string where
  "roundrobinName = ''round_robin''"

definition defaultServiceRequestCountMax :: "32 word" where
  "defaultServiceRequestCountMax = 1024"

definition newEDSBalancerImpl :: "bool \<Rightarrow> edsBalancerImpl" where
  "newEDSBalancerImpl lr =
     \<lparr>loadReporter = lr, subBalancerBuilder = roundrobinName, priorityToLocalities = [],
      respReceived = False, priorityLowest = None, priorityToState = [], dropConfig = None,
      drops = [], innerState = \<lparr>ConnectivityState = Idle, Picker = None\<rparr>,
      serviceRequestsCounter = None, serviceRequestCountMax = defaultServiceRequestCountMax,
      edsCalls = []\<rparr>"
section \<open>Notions used in the properties\<close>

text \<open>
  The notions in which the properties below are stated, component by component, together
  with the concrete values on which the properties are tried.
\<close>

subsection \<open>The domain matcher\<close>












subsection \<open>The service watcher\<close>

text \<open>A watcher with an RDS watch outstanding: the first LDS update named a route.\<close>

definition watching :: serviceUpdateWatcher where
  "watching = handleLDSResp (watchService ''svc'')
     \<lparr>RouteConfigName = ''route'', MaxStreamDuration = 0, HTTPFilters = []\<rparr> None"

definition ListenerUpdate0 :: ListenerUpdate where
  "ListenerUpdate0 = \<lparr>RouteConfigName = [], MaxStreamDuration = 0, HTTPFilters = []\<rparr>"

subsection \<open>The client cache\<close>

text \<open>
  Two caches in which the listener and its route configuration exist: in the first the
  route configuration has no virtual host, in the second its first virtual host has no
  route.
\<close>

definition cacheNoVirtualHosts :: UpdateCache where
  "cacheNoVirtualHosts =
     \<lparr>LDSCache = [''listener'' \<mapsto> \<lparr>RouteConfigName = ''route'', MaxStreamDuration = 0, HTTPFilters = []\<rparr>],
      RDSCache = [''route'' \<mapsto> \<lparr>VirtualHosts = []\<rparr>],
      CDSCache = Map.empty, EDSCache = Map.empty\<rparr>"

definition cacheNoRoutes :: UpdateCache where
  "cacheNoRoutes =
     \<lparr>LDSCache = [''listener'' \<mapsto> \<lparr>RouteConfigName = ''route'', MaxStreamDuration = 0, HTTPFilters = []\<rparr>],
      RDSCache = [''route'' \<mapsto> \<lparr>VirtualHosts = [\<lparr>Domains = [''*''], Routes = []\<rparr>]\<rparr>],
      CDSCache = Map.empty, EDSCache = Map.empty\<rparr>"

subsection \<open>The EDS parser\<close>

text \<open>
  What the parser should produce for one endpoint and one locality, and the condition
  on the priorities in the spec's words: the set of priorities is the dense prefix
  \<open>{0, ..., n - 1}\<close> for its \<open>n\<close> distinct elements.
\<close>

definition toEndpoint :: "LbEndpoint \<Rightarrow> Endpoint" where
  "toEndpoint lb =
     \<lparr>Address = parseAddress (LbSocketAddress lb), HealthStatus = LbHealthStatus lb,
      EndpointWeight = GetValue (LbLoadBalancingWeight lb)\<rparr>"

definition toLocality :: "LocalityLbEndpoints \<Rightarrow> Locality option" where
  "toLocality pb =
     (case GetLocality pb of
        None \<Rightarrow> None
      | Some lid \<Rightarrow>
          Some \<lparr>ID = lid, Endpoints = map toEndpoint (LbEndpoints pb),
                Weight = GetValue (LoadBalancingWeight pb), Priority = GetPriority pb\<rparr>)"

definition densePrefix :: "32 word set \<Rightarrow> bool" where
  "densePrefix P = (unat ` P = {0..<card P})"

text \<open>Two responses: priorities 0 and 1, and priorities 0 and 2.\<close>

definition pbLocality :: "string \<Rightarrow> 32 word \<Rightarrow> LocalityLbEndpoints" where
  "pbLocality zone priority =
     \<lparr>GetLocality = Some \<lparr>Region = ''r'', Zone = zone, SubZone = []\<rparr>,
      LbEndpoints = [\<lparr>LbHealthStatus = EndpointHealthStatusHealthy,
                      LbSocketAddress = Some \<lparr>SocketAddr = ''10.0.0.1'', PortValue = 8080\<rparr>,
                      LbLoadBalancingWeight = None\<rparr>],
      LoadBalancingWeight = Some 3, GetPriority = priority\<rparr>"

definition claDense :: ClusterLoadAssignment where
  "claDense = \<lparr>LocalityEndpoints = [pbLocality ''a'' 0, pbLocality ''b'' 1], DropOverloads = []\<rparr>"

definition claGap :: ClusterLoadAssignment where
  "claGap = \<lparr>LocalityEndpoints = [pbLocality ''a'' 0, pbLocality ''b'' 2], DropOverloads = []\<rparr>"

subsection \<open>The drop picker\<close>

text \<open>
  Two droppers, one that never drops and one that always does, an inner picker that
  fails for the method \<open>fail\<close> and succeeds otherwise, and the state in which no
  request is in flight.
\<close>

definition neverDrops :: dropper where
  "neverDrops = newDropper \<lparr>Category = ''lb'', Numerator = 0, Denominator = 100\<rparr>"

definition alwaysDrops :: dropper where
  "alwaysDrops = newDropper \<lparr>Category = ''throttle'', Numerator = 100, Denominator = 100\<rparr>"

definition innerPicker :: Picker where
  "innerPicker info =
     (if info = ''fail'' then (PickResult0, Some (OtherError ''no subconn''))
      else (\<lparr>SubConn = Some 1, Done = Some (InnerDone 7)\<rparr>, None))"

definition idle :: pickState where
  "idle = \<lparr>numRequests = (\<lambda>name. 0), pickCalls = []\<rparr>"

subsection \<open>The EDS balancer\<close>

text \<open>
  Whether \<open>ToString\<close> succeeds on a locality ID, the calls that add or remove a child,
  and the calls that only update one: a new weight, new addresses, a rebuilt picker.
\<close>

definition ok :: "(LocalityID \<Rightarrow> error + string) \<Rightarrow> LocalityID \<Rightarrow> bool" where
  "ok ts lid = (case ts lid of Inl err \<Rightarrow> False | Inr lidJSON \<Rightarrow> True)"

fun isAddOrRemove :: "edsCall \<Rightarrow> bool" where
  "isAddOrRemove (AggregatorAdd p k w) = True"
| "isAddOrRemove (AggregatorRemove p k) = True"
| "isAddOrRemove (GroupAdd p k n) = True"
| "isAddOrRemove (GroupRemove p k) = True"
| "isAddOrRemove c = False"

fun isUpdateOnly :: "edsCall \<Rightarrow> bool" where
  "isUpdateOnly (AggregatorUpdateWeight p k w) = True"
| "isUpdateOnly (GroupUpdateClientConnState p k as) = True"
| "isUpdateOnly (AggregatorBuildAndUpdate p) = True"
| "isUpdateOnly c = False"

definition keys :: "('k \<times> 'v) list \<Rightarrow> 'k set" where
  "keys al = fst ` set al"

text \<open>
  The IDs of a list of localities that can be serialised. A group is settled for the
  localities of its priority when every such ID has a config and every config whose ID
  can be serialised belongs to one of them.
\<close>

definition okIDs :: "(LocalityID \<Rightarrow> error + string) \<Rightarrow> Locality list \<Rightarrow> LocalityID set" where
  "okIDs ts ls = {lid \<in> ID ` set ls. ok ts lid}"

definition settled :: "(LocalityID \<Rightarrow> error + string) \<Rightarrow> (LocalityID \<times> localityConfig) list \<Rightarrow> Locality list \<Rightarrow> bool" where
  "settled ts cfgs ls =
     (okIDs ts ls \<subseteq> keys cfgs \<and> (\<forall>k \<in> keys cfgs. ok ts k \<longrightarrow> k \<in> okIDs ts ls))"

text \<open>The fields that the loops over the priorities leave alone.\<close>

definition sameConfig :: "edsBalancerImpl \<Rightarrow> edsBalancerImpl \<Rightarrow> bool" where
  "sameConfig e' e =
     (respReceived e' = respReceived e \<and> dropConfig e' = dropConfig e
      \<and> subBalancerBuilder e' = subBalancerBuilder e)"

text \<open>The first two statements of \<open>handleEDSResponse\<close>.\<close>

definition received :: "edsBalancerImpl \<Rightarrow> EndpointsUpdate \<Rightarrow> edsBalancerImpl" where
  "received e u =
     (if \<not> respReceived e \<and> u = EndpointsUpdate0
      then emit [UpdateState TransientFailure (ErrPicker ErrAllPrioritiesRemoved)] e else e)
       \<lparr>respReceived := True\<rparr>"

text \<open>
  An endpoint is usable when its health status is Healthy or Unknown. An address is the
  forwarded form of an endpoint when it has the endpoint's address and carries the
  endpoint's weight (in \<open>Attributes\<close> and in \<open>Metadata\<close>) if the child policy is
  weighted round robin and the weight is not zero, and carries no weight otherwise.
\<close>

definition usable :: "Endpoint \<Rightarrow> bool" where
  "usable ep = (HealthStatus ep = EndpointHealthStatusHealthy \<or> HealthStatus ep = EndpointHealthStatusUnknown)"

definition forwards :: "string \<Rightarrow> Endpoint \<Rightarrow> resolverAddress \<Rightarrow> bool" where
  "forwards name ep a =
     (Addr a = Address ep
      \<and> (if name = weightedroundrobinName \<and> EndpointWeight ep \<noteq> 0
         then Attributes a = Some (EndpointWeight ep) \<and> Metadata a = Some (EndpointWeight ep)
         else Attributes a = None \<and> Metadata a = None))"

text \<open>
  A group's configs match the localities of its priority when each locality that can be
  serialised has a config with the locality's weight and the addresses computed from
  its endpoints. \<open>lowestOf\<close> is the priority that the loop over the buckets ends with.
\<close>

definition matched ::
  "(LocalityID \<Rightarrow> error + string) \<Rightarrow> string \<Rightarrow> (LocalityID \<times> localityConfig) list \<Rightarrow> Locality list \<Rightarrow> bool" where
  "matched ts name cfgs ls =
     (\<forall>l \<in> set ls. ok ts (ID l) \<longrightarrow>
        map_of cfgs (ID l) = Some \<lparr>weight = Weight l, addrs = addrsLoop name (Endpoints l) None\<rparr>)"

fun lowestOf :: "(priorityType \<times> Locality list) list \<Rightarrow> priorityType \<Rightarrow> priorityType" where
  "lowestOf [] lo = lo"
| "lowestOf ((p, ls) # rest) lo = lowestOf rest (if \<not> isSet lo \<or> higherThan lo p then p else lo)"

text \<open>
  A serialisation of locality IDs, two localities of priorities 0 and 1 with a healthy,
  an unhealthy and an unknown endpoint each, and a balancer with the weighted round
  robin child policy.
\<close>

definition slashed :: "LocalityID \<Rightarrow> error + string" where
  "slashed lid = Inr (Region lid @ ''/'' @ Zone lid @ ''/'' @ SubZone lid)"

definition endpointsOf :: "string \<Rightarrow> Endpoint list" where
  "endpointsOf host =
     [\<lparr>Address = host @ '':1'', HealthStatus = EndpointHealthStatusHealthy, EndpointWeight = 3\<rparr>,
      \<lparr>Address = host @ '':2'', HealthStatus = EndpointHealthStatusUnhealthy, EndpointWeight = 1\<rparr>,
      \<lparr>Address = host @ '':3'', HealthStatus = EndpointHealthStatusUnknown, EndpointWeight = 0\<rparr>]"

definition localityA :: Locality where
  "localityA = \<lparr>ID = \<lparr>Region = ''r'', Zone = ''a'', SubZone = []\<rparr>, Endpoints = endpointsOf ''a'',
                 Weight = 5, Priority = 0\<rparr>"

definition localityB :: Locality where
  "localityB = \<lparr>ID = \<lparr>Region = ''r'', Zone = ''b'', SubZone = []\<rparr>, Endpoints = endpointsOf ''b'',
                 Weight = 2, Priority = 1\<rparr>"

definition twoPriorities :: EndpointsUpdate where
  "twoPriorities = \<lparr>Drops = None, Localities = Some [localityA, localityB]\<rparr>"

definition emptyGroup :: balancerGroupWithConfig where
  "emptyGroup = \<lparr>bg = Some 0, stateAggregator = Some 0, configs = []\<rparr>"

definition weighted :: edsBalancerImpl where
  "weighted = (newEDSBalancerImpl True)\<lparr>subBalancerBuilder := weightedroundrobinName\<rparr>"

section \<open>Properties of the domain matcher\<close>


























section \<open>Properties of the service watcher\<close>

lemma reachable_closed_no_rds: "reachable w \<Longrightarrow> closed w \<Longrightarrow> rdsCancel w = None"
proof (induction rule: reachable.induct)
  case (init name)
  then show ?case by (simp add: watchService_def)
next
  case (lds w update err)
  then show ?case
    by (auto simp: handleLDSResp_def call_def Let_def split: option.splits if_splits)
next
  case (rds w rupdate err)
  then show ?case
    by (auto simp: handleRDSResp_def call_def Let_def split: option.splits if_splits)
next
  case (cls w)
  then show ?case
    by (auto simp: close_def call_def Let_def split: option.splits)
qed

text \<open>
  C9. On the watcher that \<open>watchService\<close> has just created, a successful LDS update
  whose RouteConfigName is the empty string invokes the service callback at once,
  with the LDS config of the update and no virtual host, and starts no RDS watch:
  the only new call is the callback, and \<open>rdsCancel\<close> stays nil.
\<close>

theorem fresh_empty_route_name_calls_back:
  "handleLDSResp (watchService name)
       \<lparr>RouteConfigName = [], MaxStreamDuration = msd, HTTPFilters = fs\<rparr> None
   = (watchService name)
       \<lparr>lastUpdate := \<lparr>virtualHost = None,
                       ldsConfig = \<lparr>maxStreamDuration = msd, httpFilterConfig = fs\<rparr>\<rparr>,
        calls := [WatchListener name,
                  ServiceCb \<lparr>virtualHost = None,
                             ldsConfig = \<lparr>maxStreamDuration = msd, httpFilterConfig = fs\<rparr>\<rparr>
                            None]\<rparr>
   \<and> rdsCancel (handleLDSResp (watchService name)
       \<lparr>RouteConfigName = [], MaxStreamDuration = msd, HTTPFilters = fs\<rparr> None) = None"
  by (simp add: handleLDSResp_def watchService_def call_def serviceUpdate0_def)

theorem fresh_empty_route_name_calls_back_witness:
  "handleLDSResp (watchService ''svc'')
       \<lparr>RouteConfigName = [], MaxStreamDuration = 5, HTTPFilters = [''router'']\<rparr> None
   = \<lparr>serviceName = ''svc'',
      lastUpdate = \<lparr>virtualHost = None,
                     ldsConfig = \<lparr>maxStreamDuration = 5, httpFilterConfig = [''router'']\<rparr>\<rparr>,
      closed = False, rdsName = [], rdsCancel = None,
      calls = [WatchListener ''svc'',
               ServiceCb \<lparr>virtualHost = None,
                          ldsConfig = \<lparr>maxStreamDuration = 5, httpFilterConfig = [''router'']\<rparr>\<rparr>
                         None]\<rparr>"
  using fresh_empty_route_name_calls_back [of "''svc''" 5 "[''router'']"]
  by (simp add: watchService_def)

text \<open>
  C7. On a watcher with an RDS watch outstanding, an LDS error of kind ResourceNotFound
  cancels that watch, clears \<open>rdsName\<close>, \<open>rdsCancel\<close> and \<open>lastUpdate\<close>, and calls the
  service callback once, with the error. Any other LDS error on a watcher that is not
  closed calls the service callback once with the error and changes nothing else: the
  RDS watch is not cancelled and \<open>rdsName\<close> and \<open>lastUpdate\<close> are kept.
\<close>

theorem lds_error_forwarded:
  assumes "reachable w"
  shows "(rdsCancel w = Some c \<and> ErrType e = ErrorTypeResourceNotFound \<longrightarrow>
            handleLDSResp w update (Some e)
              = w\<lparr>lastUpdate := serviceUpdate0, rdsName := [], rdsCancel := None,
                   calls := calls w @ [CancelRouteConfig c, ServiceCb serviceUpdate0 (Some e)]\<rparr>)
         \<and> (\<not> closed w \<and> ErrType e \<noteq> ErrorTypeResourceNotFound \<longrightarrow>
            handleLDSResp w update (Some e)
              = w\<lparr>calls := calls w @ [ServiceCb serviceUpdate0 (Some e)]\<rparr>)"
proof (intro conjI impI)
  assume a: "rdsCancel w = Some c \<and> ErrType e = ErrorTypeResourceNotFound"
  then have "\<not> closed w" using reachable_closed_no_rds[OF assms] by auto
  then show "handleLDSResp w update (Some e)
              = w\<lparr>lastUpdate := serviceUpdate0, rdsName := [], rdsCancel := None,
                   calls := calls w @ [CancelRouteConfig c, ServiceCb serviceUpdate0 (Some e)]\<rparr>"
    using a by (simp add: handleLDSResp_def call_def)
next
  assume "\<not> closed w \<and> ErrType e \<noteq> ErrorTypeResourceNotFound"
  then show "handleLDSResp w update (Some e)
              = w\<lparr>calls := calls w @ [ServiceCb serviceUpdate0 (Some e)]\<rparr>"
    by (simp add: handleLDSResp_def call_def split: option.splits)
qed

lemma watching_eq:
  "watching = \<lparr>serviceName = ''svc'', lastUpdate = serviceUpdate0, closed = False,
               rdsName = ''route'', rdsCancel = Some 1,
               calls = [WatchListener ''svc'', WatchRouteConfig ''route'']\<rparr>"
  by (simp add: watching_def handleLDSResp_def watchService_def call_def serviceUpdate0_def)

theorem lds_error_forwarded_witness:
  "handleLDSResp watching ListenerUpdate0 (Some (XdsError ErrorTypeResourceNotFound ''removed''))
     = \<lparr>serviceName = ''svc'', lastUpdate = serviceUpdate0, closed = False,
        rdsName = [], rdsCancel = None,
        calls = [WatchListener ''svc'', WatchRouteConfig ''route'', CancelRouteConfig 1,
                 ServiceCb serviceUpdate0 (Some (XdsError ErrorTypeResourceNotFound ''removed''))]\<rparr>
   \<and> handleLDSResp watching ListenerUpdate0 (Some (XdsError ErrorTypeConnection ''broken''))
     = \<lparr>serviceName = ''svc'', lastUpdate = serviceUpdate0, closed = False,
        rdsName = ''route'', rdsCancel = Some 1,
        calls = [WatchListener ''svc'', WatchRouteConfig ''route'',
                 ServiceCb serviceUpdate0 (Some (XdsError ErrorTypeConnection ''broken''))]\<rparr>"
proof -
  have r: "reachable watching"
    unfolding watching_def by (intro reachable.lds reachable.init)
  show ?thesis
    using lds_error_forwarded [OF r, of 1 "XdsError ErrorTypeResourceNotFound ''removed''" ListenerUpdate0]
      lds_error_forwarded [OF r, of 1 "XdsError ErrorTypeConnection ''broken''" ListenerUpdate0]
    by (simp add: watching_eq)
qed

section \<open>Properties of the client cache\<close>

text \<open>
  C10. With the listener in the LDS cache and its route configuration in the RDS cache,
  \<open>FindEndpointsByListenerName\<close> should return an endpoints update or the
  resource-not-found error. It does not: the guard joins its two tests with \<open>&&\<close>, so
  with no virtual host the guard itself indexes the empty list, and with a first
  virtual host without routes the guard is false and \<open>Routes[0]\<close> is out of range.
\<close>

theorem FindEndpointsByListenerName_panics:
  "FindEndpointsByListenerName cacheNoVirtualHosts ''listener'' = Panicked (IndexOutOfRange 0 0)
   \<and> FindEndpointsByListenerName cacheNoRoutes ''listener'' = Panicked (IndexOutOfRange 0 0)"
  by (simp add: FindEndpointsByListenerName_def cacheNoVirtualHosts_def cacheNoRoutes_def index_def)

section \<open>Properties of the EDS parser\<close>

lemma parseEndpoints_loop: "parseEndpointsLoop lbs acc = acc @ map (\<lambda>lb. \<lparr>Address = parseAddress (LbSocketAddress lb),
                      HealthStatus = LbHealthStatus lb,
                      EndpointWeight = GetValue (LbLoadBalancingWeight lb)\<rparr>) lbs"
  by (induction lbs arbitrary: acc) auto

lemma dropPoliciesLoop_elems: "elems (dropPoliciesLoop ds acc) = elems acc @ map parseDropPolicy ds"
  by (induction ds arbitrary: acc) (auto simp: append1_def elems_def)

lemma dropPoliciesLoop_None: "dropPoliciesLoop ds acc = None \<longleftrightarrow> acc = None \<and> ds = []"
  by (induction ds arbitrary: acc) (auto simp: append1_def)

lemma parseEndpoints_map: "parseEndpoints lbs = map toEndpoint lbs"
  by (simp add: parseEndpoints_def parseEndpoints_loop toEndpoint_def)

lemma parseLocalitiesLoop_Inl:
  "(\<exists>e. parseLocalitiesLoop ls st = Inl e) \<longleftrightarrow> (\<exists>l \<in> set ls. GetLocality l = None)"
proof (induction ls arbitrary: st)
  case Nil then show ?case by simp
next
  case (Cons l ls)
  obtain a P where st: "st = (a, P)" by (cases st)
  show ?case using Cons by (auto simp: st Let_def split: option.splits)
qed

lemma parseLocalitiesLoop_Inr:
  "parseLocalitiesLoop ls (acc, P) = Inr (acc', P') \<Longrightarrow>
   P' = P \<union> GetPriority ` set ls \<and> map Some (elems acc') = map Some (elems acc) @ map toLocality ls
   \<and> (acc' = None \<longleftrightarrow> acc = None \<and> ls = [])"
proof (induction ls arbitrary: acc P)
  case Nil then show ?case by simp
next
  case (Cons l ls)
  from Cons.prems obtain lid where lid: "GetLocality l = Some lid"
    by (cases "GetLocality l") auto
  let ?loc = "\<lparr>ID = \<lparr>Region = Region lid, Zone = Zone lid, SubZone = SubZone lid\<rparr>,
               Endpoints = parseEndpoints (LbEndpoints l),
               Weight = GetValue (LoadBalancingWeight l), Priority = GetPriority l\<rparr>"
  have step: "parseLocalitiesLoop ls (append1 acc ?loc, insert (GetPriority l) P) = Inr (acc', P')"
    using Cons.prems by (simp add: lid Let_def)
  have t: "toLocality l = Some ?loc" by (simp add: toLocality_def lid parseEndpoints_map)
  from Cons.IH[OF step] show ?case
    by (simp add: t append1_def elems_def)
qed

lemma priorityCheck_None:
  "priorityCheck P i = None \<longleftrightarrow> (\<forall>j. i \<le> j \<and> j < card P \<longrightarrow> word_of_nat j \<in> P)"
proof (induction P i rule: priorityCheck.induct)
  case (1 P i)
  show ?case
  proof (cases "i < card P")
    case True
    show ?thesis
    proof (cases "word_of_nat i \<in> P")
      case w: True
      have "\<And>j. i \<le> j \<longleftrightarrow> j = i \<or> Suc i \<le> j" by auto
      then have "(\<forall>j. i \<le> j \<and> j < card P \<longrightarrow> word_of_nat j \<in> P) \<longleftrightarrow> (\<forall>j. Suc i \<le> j \<and> j < card P \<longrightarrow> word_of_nat j \<in> P)"
        using w by auto
      then show ?thesis using 1 True w by (subst priorityCheck.simps) simp
    next
      case False
      then show ?thesis using True by (subst priorityCheck.simps) auto
    qed
  next
    case False
    then show ?thesis by (subst priorityCheck.simps) auto
  qed
qed

lemma dense_iff:
  fixes P :: "32 word set"
  shows "(\<forall>j < card P. word_of_nat j \<in> P) \<longleftrightarrow> unat ` P = {0..<card P}"
proof
  assume a: "\<forall>j < card P. word_of_nat j \<in> P"
  let ?n = "card P"
  have le: "?n \<le> 2 ^ 32"
    using card_mono[of "UNIV :: 32 word set" P] by (simp add: card_word)
  have inj: "inj_on (word_of_nat :: nat \<Rightarrow> 32 word) {0..<?n}"
  proof (rule inj_onI)
    fix x y assume "x \<in> {0..<?n}" "y \<in> {0..<?n}" "(word_of_nat x :: 32 word) = word_of_nat y"
    then have "unat (word_of_nat x :: 32 word) = unat (word_of_nat y :: 32 word)" by simp
    moreover have "x < 2 ^ 32" "y < 2 ^ 32" using \<open>x \<in> _\<close> \<open>y \<in> _\<close> le by auto
    ultimately show "x = y" by (simp add: unat_of_nat take_bit_nat_eq_self)
  qed
  have sub: "(word_of_nat :: nat \<Rightarrow> 32 word) ` {0..<?n} \<subseteq> P" using a by auto
  have "card ((word_of_nat :: nat \<Rightarrow> 32 word) ` {0..<?n}) = ?n" using inj by (simp add: card_image)
  then have eq: "(word_of_nat :: nat \<Rightarrow> 32 word) ` {0..<?n} = P"
    using sub by (intro card_subset_eq) auto
  have "unat ` P = unat ` ((word_of_nat :: nat \<Rightarrow> 32 word) ` {0..<?n})" using eq by simp
  also have "\<dots> = {0..<?n}"
  proof -
    have "\<And>x. x < ?n \<Longrightarrow> unat (word_of_nat x :: 32 word) = x"
      using le by (simp add: unat_of_nat take_bit_nat_eq_self)
    then show ?thesis by (force simp: image_image)
  qed
  finally show "unat ` P = {0..<card P}" .
next
  assume b: "unat ` P = {0..<card P}"
  show "\<forall>j < card P. word_of_nat j \<in> P"
  proof (intro allI impI)
    fix j assume "j < card P"
    then have "j \<in> unat ` P" using b by simp
    then obtain w where "w \<in> P" "unat w = j" by auto
    then show "word_of_nat j \<in> P" by auto
  qed
qed

text \<open>
  C6. \<open>parseEDSRespProto\<close> returns an error if and only if some locality of the
  ClusterLoadAssignment has no locality ID or the set of priorities of its localities is
  not the dense prefix \<open>{0, ..., n - 1}\<close>; with an error the update it returns is the
  empty one. Otherwise it returns the drop policies and, in order, every locality as
  parsed: its ID, its endpoints, its weight and its priority.
\<close>

theorem parseEDSRespProto_error_iff:
  "(snd (parseEDSRespProto m) \<noteq> None \<longleftrightarrow>
      (\<exists>l \<in> set (LocalityEndpoints m). GetLocality l = None)
      \<or> \<not> densePrefix (GetPriority ` set (LocalityEndpoints m)))
   \<and> (snd (parseEDSRespProto m) \<noteq> None \<longrightarrow> fst (parseEDSRespProto m) = EndpointsUpdate0)
   \<and> (snd (parseEDSRespProto m) = None \<longrightarrow>
        Drops (fst (parseEDSRespProto m))
          = (if DropOverloads m = [] then None else Some (map parseDropPolicy (DropOverloads m)))
        \<and> (Localities (fst (parseEDSRespProto m)) = None \<longleftrightarrow> LocalityEndpoints m = [])
        \<and> map Some (elems (Localities (fst (parseEDSRespProto m))))
          = map toLocality (LocalityEndpoints m))"
proof (cases "parseLocalitiesLoop (LocalityEndpoints m) (None, {})")
  case (Inl e)
  then have "\<exists>l \<in> set (LocalityEndpoints m). GetLocality l = None"
    using parseLocalitiesLoop_Inl[of "LocalityEndpoints m" "(None, {})"] by auto
  then show ?thesis using Inl by (simp add: parseEDSRespProto_def)
next
  case (Inr r)
  obtain ls P where r: "r = (ls, P)" by (cases r)
  have noNone: "\<not> (\<exists>l \<in> set (LocalityEndpoints m). GetLocality l = None)"
    using parseLocalitiesLoop_Inl[of "LocalityEndpoints m" "(None, {})"] Inr by auto
  from parseLocalitiesLoop_Inr[OF Inr[unfolded r]]
  have P: "P = GetPriority ` set (LocalityEndpoints m)"
    and ls: "map Some (elems ls) = map toLocality (LocalityEndpoints m)"
    and lsNone: "ls = None \<longleftrightarrow> LocalityEndpoints m = []"
    by (simp_all add: elems_def)
  have d: "priorityCheck P 0 = None \<longleftrightarrow> densePrefix P"
    using priorityCheck_None[of P 0] dense_iff[of P] by (simp add: densePrefix_def)
  have drops: "dropPoliciesLoop (DropOverloads m) None
                 = (if DropOverloads m = [] then None else Some (map parseDropPolicy (DropOverloads m)))"
    using dropPoliciesLoop_elems[of "DropOverloads m" None] dropPoliciesLoop_None[of "DropOverloads m" None]
    by (cases "dropPoliciesLoop (DropOverloads m) None") (auto simp: elems_def)
  show ?thesis
  proof (cases "priorityCheck P 0")
    case None
    then show ?thesis using Inr r noNone d P ls lsNone drops
      by (simp add: parseEDSRespProto_def)
  next
    case (Some i)
    then show ?thesis using Inr r noNone d P
      by (simp add: parseEDSRespProto_def)
  qed
qed

lemma decimal_8080: "decimal 8080 = ''8080''"
  by (simp add: decimal.simps digit_def)

lemma card_two_words: "card {0, 1 :: 32 word} = 2" "card {0, 2 :: 32 word} = 2"
  by simp_all

lemma upto_two: "{0..<2::nat} = {0, 1}"
  by auto

lemma claDense_dense: "densePrefix (GetPriority ` set (LocalityEndpoints claDense))"
proof -
  have "GetPriority ` set (LocalityEndpoints claDense) = {0, 1}"
    by (simp add: claDense_def pbLocality_def)
  moreover have "densePrefix {0, 1}"
    unfolding densePrefix_def card_two_words upto_two by simp
  ultimately show ?thesis by simp
qed

lemma claGap_not_dense: "\<not> densePrefix (GetPriority ` set (LocalityEndpoints claGap))"
proof
  assume "densePrefix (GetPriority ` set (LocalityEndpoints claGap))"
  moreover have "GetPriority ` set (LocalityEndpoints claGap) = {0, 2}"
    by (simp add: claGap_def pbLocality_def)
  ultimately have "densePrefix {0, 2}" by simp
  then have eq: "unat ` {0, 2 :: 32 word} = {0, 1}"
    unfolding densePrefix_def card_two_words upto_two .
  have "unat (2 :: 32 word) \<in> unat ` {0, 2 :: 32 word}" by (rule imageI) simp
  then have "unat (2 :: 32 word) \<in> {0, 1 :: nat}" unfolding eq .
  then show False by simp
qed

lemma claDense_ids: "\<not> (\<exists>l \<in> set (LocalityEndpoints claDense). GetLocality l = None)"
  by (simp add: claDense_def pbLocality_def)

lemma claDense_localities:
  "map toLocality (LocalityEndpoints claDense)
     = [Some \<lparr>ID = \<lparr>Region = ''r'', Zone = ''a'', SubZone = []\<rparr>,
               Endpoints = [\<lparr>Address = ''10.0.0.1:8080'', HealthStatus = EndpointHealthStatusHealthy,
                             EndpointWeight = 0\<rparr>],
               Weight = 3, Priority = 0\<rparr>,
        Some \<lparr>ID = \<lparr>Region = ''r'', Zone = ''b'', SubZone = []\<rparr>,
               Endpoints = [\<lparr>Address = ''10.0.0.1:8080'', HealthStatus = EndpointHealthStatusHealthy,
                             EndpointWeight = 0\<rparr>],
               Weight = 3, Priority = 1\<rparr>]"
  by (simp add: claDense_def toLocality_def toEndpoint_def pbLocality_def parseAddress_def
      JoinHostPort_def Itoa_def GetValue_def decimal_8080)

theorem parseEDSRespProto_error_iff_witness:
  "snd (parseEDSRespProto claDense) = None
   \<and> map Some (elems (Localities (fst (parseEDSRespProto claDense))))
      = [Some \<lparr>ID = \<lparr>Region = ''r'', Zone = ''a'', SubZone = []\<rparr>,
               Endpoints = [\<lparr>Address = ''10.0.0.1:8080'', HealthStatus = EndpointHealthStatusHealthy,
                             EndpointWeight = 0\<rparr>],
               Weight = 3, Priority = 0\<rparr>,
         Some \<lparr>ID = \<lparr>Region = ''r'', Zone = ''b'', SubZone = []\<rparr>,
               Endpoints = [\<lparr>Address = ''10.0.0.1:8080'', HealthStatus = EndpointHealthStatusHealthy,
                             EndpointWeight = 0\<rparr>],
               Weight = 3, Priority = 1\<rparr>]
   \<and> snd (parseEDSRespProto claGap) \<noteq> None
   \<and> fst (parseEDSRespProto claGap) = EndpointsUpdate0"
proof -
  note D = parseEDSRespProto_error_iff [of claDense]
  note G = parseEDSRespProto_error_iff [of claGap]
  have s1: "snd (parseEDSRespProto claDense) = None"
    using D[THEN conjunct1] claDense_ids claDense_dense by simp
  have s2: "map Some (elems (Localities (fst (parseEDSRespProto claDense))))
              = map toLocality (LocalityEndpoints claDense)"
    using D[THEN conjunct2, THEN conjunct2] s1 by simp
  have s3: "snd (parseEDSRespProto claGap) \<noteq> None"
    using G[THEN conjunct1] claGap_not_dense by simp
  have s4: "fst (parseEDSRespProto claGap) = EndpointsUpdate0"
    using G[THEN conjunct2, THEN conjunct1] s3 by simp
  show ?thesis using s1 s2 s3 s4 by (simp only: claDense_localities simp_thms)
qed

section \<open>Properties of the drop picker\<close>

lemma droppersLoop_first_true:
  "i < length ds \<Longrightarrow> \<forall>j < i. dropperDrop (ds ! j) (rnd (n + j)) = Returned False \<Longrightarrow>
   dropperDrop (ds ! i) (rnd (n + i)) = Returned True \<Longrightarrow>
   droppersLoop ds rnd n = Returned (True, Category (dropperC (ds ! i)))"
proof (induction ds arbitrary: i n)
  case Nil
  then show ?case by simp
next
  case (Cons dp rest)
  show ?case
  proof (cases i)
    case 0
    then show ?thesis using Cons.prems by simp
  next
    case (Suc k)
    have first: "dropperDrop dp (rnd n) = Returned False"
      using Cons.prems(2) Suc by (auto dest: spec[of _ 0])
    have rest: "\<forall>j < k. dropperDrop (rest ! j) (rnd (Suc n + j)) = Returned False"
    proof (intro allI impI)
      fix j assume "j < k"
      then have "dropperDrop ((dp # rest) ! Suc j) (rnd (n + Suc j)) = Returned False"
        using Cons.prems(2) Suc by (auto dest: spec[of _ "Suc j"])
      then show "dropperDrop (rest ! j) (rnd (Suc n + j)) = Returned False" by simp
    qed
    have klen: "k < length rest" using Cons.prems(1) Suc by simp
    have last: "dropperDrop (rest ! k) (rnd (Suc n + k)) = Returned True"
      using Cons.prems(3) Suc by simp
    have "droppersLoop rest rnd (Suc n) = Returned (True, Category (dropperC (rest ! k)))"
      by (rule Cons.IH[OF klen rest last])
    then show ?thesis using first Suc by simp
  qed
qed

lemma droppersLoop_all_false:
  "\<forall>j < length ds. dropperDrop (ds ! j) (rnd (n + j)) = Returned False \<Longrightarrow>
   droppersLoop ds rnd n = Returned (False, [])"
proof (induction ds arbitrary: n)
  case Nil
  then show ?case by simp
next
  case (Cons dp rest)
  have first: "dropperDrop dp (rnd n) = Returned False"
    using Cons.prems by (auto dest: spec[of _ 0])
  have "\<forall>j < length rest. dropperDrop (rest ! j) (rnd (Suc n + j)) = Returned False"
  proof (intro allI impI)
    fix j assume "j < length rest"
    then have "dropperDrop ((dp # rest) ! Suc j) (rnd (n + Suc j)) = Returned False"
      using Cons.prems by (auto dest: spec[of _ "Suc j"])
    then show "dropperDrop (rest ! j) (rnd (Suc n + j)) = Returned False" by simp
  qed
  then have "droppersLoop rest rnd (Suc n) = Returned (False, [])" by (rule Cons.IH)
  then show ?case using first by simp
qed

lemma pickCalls_EndRequest: "pickCalls (EndRequest name t) = pickCalls t @ [CallEndRequest name]"
  by (simp add: EndRequest_def logCall_def)

text \<open>
  A dropper built by \<open>newDropper\<close> drops on a sample below the total weight exactly when
  the sample is below the numerator.
\<close>

lemma newDropper_roll:
  "0 \<le> r \<Longrightarrow> r < uint (Numerator c) + uint (Denominator c - Numerator c) \<Longrightarrow>
   dropperDrop (newDropper c) r = Returned (r < uint (Numerator c))"
  by (simp add: dropperDrop_def newDropper_def newRandomWRR_def Add_def)

text \<open>
  C5. In a pick through the drop picker the droppers roll in order, before the counter
  and the inner picker are touched. With the first dropper whose roll is true, the pick
  returns the Unavailable error "RPC is dropped" and its only call is the report of the
  drop under that dropper's category to the load reporter (when one is present). When
  no dropper drops and \<open>StartRequest\<close> fails because the cap is reached, the pick
  returns an Unavailable error that carries the counter's error and reports a drop with
  the empty category; the inner picker is not called. A dropper built by \<open>newDropper\<close>
  rolls over \<open>true\<close> with weight \<open>Numerator\<close> and \<open>false\<close> with weight
  \<open>Denominator - Numerator\<close>.
\<close>

theorem drop_picker_drops:
  "(i < length (dpDrops d)
      \<and> (\<forall>j < i. dropperDrop (dpDrops d ! j) (rnd j) = Returned False)
      \<and> dropperDrop (dpDrops d ! i) (rnd i) = Returned True \<longrightarrow>
    Pick d rnd info s
      = Returned ((PickResult0, Some (Status Unavailable ''RPC is dropped'')),
                  if loadStore d then logCall (CallDropped (Category (dropperC (dpDrops d ! i)))) s
                  else s))
   \<and> ((\<forall>j < length (dpDrops d). dropperDrop (dpDrops d ! j) (rnd j) = Returned False)
      \<and> counter d = Some name \<and> numRequests s name \<ge> countMax d \<longrightarrow>
    Pick d rnd info s
      = Returned ((PickResult0, Some (StatusOf Unavailable (ErrMaxRequestsExceeded (countMax d)))),
                  if loadStore d
                  then logCall (CallDropped []) (logCall (CallStartRequest name (countMax d)) s)
                  else logCall (CallStartRequest name (countMax d)) s))
   \<and> dropperW (newDropper c) = [(True, uint (Numerator c)), (False, uint (Denominator c - Numerator c))]"
proof (intro conjI impI)
  assume a: "i < length (dpDrops d)
      \<and> (\<forall>j < i. dropperDrop (dpDrops d ! j) (rnd j) = Returned False)
      \<and> dropperDrop (dpDrops d ! i) (rnd i) = Returned True"
  then have "droppersLoop (dpDrops d) rnd 0 = Returned (True, Category (dropperC (dpDrops d ! i)))"
    using droppersLoop_first_true[of i "dpDrops d" rnd 0] by simp
  then show "Pick d rnd info s
      = Returned ((PickResult0, Some (Status Unavailable ''RPC is dropped'')),
                  if loadStore d then logCall (CallDropped (Category (dropperC (dpDrops d ! i)))) s
                  else s)"
    by (simp add: Pick_def)
next
  assume a: "(\<forall>j < length (dpDrops d). dropperDrop (dpDrops d ! j) (rnd j) = Returned False)
      \<and> counter d = Some name \<and> numRequests s name \<ge> countMax d"
  then have "droppersLoop (dpDrops d) rnd 0 = Returned (False, [])"
    using droppersLoop_all_false[of "dpDrops d" rnd 0] by simp
  then show "Pick d rnd info s
      = Returned ((PickResult0, Some (StatusOf Unavailable (ErrMaxRequestsExceeded (countMax d)))),
                  if loadStore d
                  then logCall (CallDropped []) (logCall (CallStartRequest name (countMax d)) s)
                  else logCall (CallStartRequest name (countMax d)) s)"
    using a by (simp add: Pick_def StartRequest_def logCall_def)
next
  show "dropperW (newDropper c) = [(True, uint (Numerator c)), (False, uint (Denominator c - Numerator c))]"
    by (simp add: newDropper_def newRandomWRR_def Add_def)
qed

text \<open>
  C1. Take a pick in which no dropper drops, a counter is configured and
  \<open>StartRequest\<close> succeeds. If the inner picker returns an error, \<open>Pick\<close> returns it
  after calling \<open>EndRequest\<close>: its calls are \<open>StartRequest\<close>, the inner pick and one
  \<open>EndRequest\<close>, and the count is back where it was. If the inner picker succeeds,
  \<open>Pick\<close> itself calls no \<open>EndRequest\<close>, and the Done callback it returns calls
  \<open>EndRequest\<close> once and then the original Done callback, if there is one.
\<close>

theorem counted_request_ends_once:
  assumes "\<forall>j < length (dpDrops d). dropperDrop (dpDrops d ! j) (rnd j) = Returned False"
    and "counter d = Some name"
    and "numRequests s name < countMax d"
  shows "(dpPicker d info = (pr, Some e) \<longrightarrow>
            Pick d rnd info s
              = Returned ((pr, Some e),
                          s\<lparr>pickCalls := pickCalls s @ [CallStartRequest name (countMax d),
                                                        CallPick info, CallEndRequest name]\<rparr>))
         \<and> (dpPicker d info = (pr, None) \<longrightarrow>
            Pick d rnd info s
              = Returned ((pr\<lparr>Done := Some (CountedDone name (Done pr))\<rparr>, None),
                          s\<lparr>numRequests := (numRequests s)(name := numRequests s name + 1),
                            pickCalls := pickCalls s @ [CallStartRequest name (countMax d),
                                                        CallPick info]\<rparr>)
            \<and> (\<forall>doneInfo t.
                  runDone (CountedDone name (Done pr)) doneInfo t
                    = (case Done pr of
                         None \<Rightarrow> EndRequest name t
                       | Some oldDone \<Rightarrow> runDone oldDone doneInfo (EndRequest name t))
                  \<and> pickCalls (EndRequest name t) = pickCalls t @ [CallEndRequest name]))"
proof -
  have loop: "droppersLoop (dpDrops d) rnd 0 = Returned (False, [])"
    using droppersLoop_all_false[of "dpDrops d" rnd 0] assms(1) by simp
  have start: "StartRequest name (countMax d) s
      = (None, s\<lparr>numRequests := (numRequests s)(name := numRequests s name + 1),
                  pickCalls := pickCalls s @ [CallStartRequest name (countMax d)]\<rparr>)"
    using assms(3) by (simp add: StartRequest_def logCall_def not_le[symmetric])
  show ?thesis
  proof (intro conjI impI allI)
    assume p: "dpPicker d info = (pr, Some e)"
    show "Pick d rnd info s
              = Returned ((pr, Some e),
                          s\<lparr>pickCalls := pickCalls s @ [CallStartRequest name (countMax d),
                                                        CallPick info, CallEndRequest name]\<rparr>)"
      by (simp add: Pick_def loop assms(2) start p EndRequest_def logCall_def)
  next
    assume p: "dpPicker d info = (pr, None)"
    show "Pick d rnd info s
              = Returned ((pr\<lparr>Done := Some (CountedDone name (Done pr))\<rparr>, None),
                          s\<lparr>numRequests := (numRequests s)(name := numRequests s name + 1),
                            pickCalls := pickCalls s @ [CallStartRequest name (countMax d),
                                                        CallPick info]\<rparr>)"
      by (simp add: Pick_def loop assms(2) start p logCall_def)
  next
    fix doneInfo t
    show "runDone (CountedDone name (Done pr)) doneInfo t
            = (case Done pr of
                 None \<Rightarrow> EndRequest name t
               | Some oldDone \<Rightarrow> runDone oldDone doneInfo (EndRequest name t))"
      by (simp add: Let_def)
    show "pickCalls (EndRequest name t) = pickCalls t @ [CallEndRequest name]"
      by (rule pickCalls_EndRequest)
  qed
qed

lemma neverDrops_roll: "dropperDrop neverDrops 50 = Returned False"
  by (simp add: neverDrops_def dropperDrop_def newDropper_def newRandomWRR_def Add_def)

lemma alwaysDrops_roll: "dropperDrop alwaysDrops 50 = Returned True"
  by (simp add: alwaysDrops_def dropperDrop_def newDropper_def newRandomWRR_def Add_def)

theorem drop_picker_drops_witness:
  "Pick (newDropPicker innerPicker [neverDrops, alwaysDrops] True (Some ''svc'') 1024)
        (\<lambda>n. 50) ''m'' idle
     = Returned ((PickResult0, Some (Status Unavailable ''RPC is dropped'')),
                 \<lparr>numRequests = (\<lambda>name. 0), pickCalls = [CallDropped ''throttle'']\<rparr>)
   \<and> Pick (newDropPicker innerPicker [neverDrops] True (Some ''svc'') 0) (\<lambda>n. 50) ''m'' idle
     = Returned ((PickResult0, Some (StatusOf Unavailable (ErrMaxRequestsExceeded 0))),
                 \<lparr>numRequests = (\<lambda>name. 0),
                  pickCalls = [CallStartRequest ''svc'' 0, CallDropped []]\<rparr>)"
proof -
  let ?d = "newDropPicker innerPicker [neverDrops, alwaysDrops] True (Some ''svc'') 1024"
  let ?e = "newDropPicker innerPicker [neverDrops] True (Some ''svc'') 0"
  have h1: "1 < length (dpDrops ?d)
      \<and> (\<forall>j < 1. dropperDrop (dpDrops ?d ! j) ((\<lambda>n. 50) j) = Returned False)
      \<and> dropperDrop (dpDrops ?d ! 1) ((\<lambda>n. 50) 1) = Returned True"
    by (simp add: newDropPicker_def neverDrops_roll alwaysDrops_roll)
  have c: "Category (dropperC (dpDrops ?d ! 1)) = ''throttle''"
    by (simp add: newDropPicker_def alwaysDrops_def newDropper_def)
  have h2: "(\<forall>j < length (dpDrops ?e). dropperDrop (dpDrops ?e ! j) ((\<lambda>n. 50) j) = Returned False)
      \<and> counter ?e = Some ''svc'' \<and> numRequests idle ''svc'' \<ge> countMax ?e"
    by (simp add: newDropPicker_def neverDrops_roll idle_def)
  have p1: "Pick ?d (\<lambda>n. 50) ''m'' idle
      = Returned ((PickResult0, Some (Status Unavailable ''RPC is dropped'')),
                  if loadStore ?d then logCall (CallDropped (Category (dropperC (dpDrops ?d ! 1)))) idle
                  else idle)"
    using drop_picker_drops [of 1 ?d "\<lambda>n. 50" "''m''" idle, THEN conjunct1] h1 by blast
  have p2: "Pick ?e (\<lambda>n. 50) ''m'' idle
      = Returned ((PickResult0, Some (StatusOf Unavailable (ErrMaxRequestsExceeded (countMax ?e)))),
                  if loadStore ?e
                  then logCall (CallDropped []) (logCall (CallStartRequest ''svc'' (countMax ?e)) idle)
                  else logCall (CallStartRequest ''svc'' (countMax ?e)) idle)"
    using drop_picker_drops [of _ ?e "\<lambda>n. 50" "''m''" idle "''svc''", THEN conjunct2, THEN conjunct1] h2
    by blast
  show ?thesis
    unfolding p1 p2 c by (simp add: newDropPicker_def logCall_def idle_def)
qed

theorem counted_request_ends_once_witness:
  "Pick (newDropPicker innerPicker [neverDrops] True (Some ''svc'') 1024) (\<lambda>n. 50) ''fail'' idle
     = Returned ((PickResult0, Some (OtherError ''no subconn'')),
                 \<lparr>numRequests = (\<lambda>name. 0),
                  pickCalls = [CallStartRequest ''svc'' 1024, CallPick ''fail'',
                               CallEndRequest ''svc'']\<rparr>)
   \<and> Pick (newDropPicker innerPicker [neverDrops] True (Some ''svc'') 1024) (\<lambda>n. 50) ''ok'' idle
     = Returned ((\<lparr>SubConn = Some 1, Done = Some (CountedDone ''svc'' (Some (InnerDone 7)))\<rparr>, None),
                 \<lparr>numRequests = (\<lambda>name. 0)(''svc'' := 1),
                  pickCalls = [CallStartRequest ''svc'' 1024, CallPick ''ok'']\<rparr>)
   \<and> pickCalls (runDone (CountedDone ''svc'' (Some (InnerDone 7))) ''done'' idle)
     = [CallEndRequest ''svc'', CallDone 7 ''done'']"
proof -
  let ?d = "newDropPicker innerPicker [neverDrops] True (Some ''svc'') 1024"
  have h1: "\<forall>j < length (dpDrops ?d). dropperDrop (dpDrops ?d ! j) ((\<lambda>n. 50) j) = Returned False"
    by (simp add: newDropPicker_def neverDrops_roll)
  have h2: "counter ?d = Some ''svc''" by (simp add: newDropPicker_def)
  have h3: "numRequests idle ''svc'' < countMax ?d" by (simp add: newDropPicker_def idle_def)
  have f: "dpPicker ?d ''fail'' = (PickResult0, Some (OtherError ''no subconn''))"
    by (simp add: newDropPicker_def innerPicker_def)
  have k: "dpPicker ?d ''ok'' = (\<lparr>SubConn = Some 1, Done = Some (InnerDone 7)\<rparr>, None)"
    by (simp add: newDropPicker_def innerPicker_def)
  note T1 = counted_request_ends_once [OF h1 h2 h3, of "''fail''" PickResult0 "OtherError ''no subconn''",
      THEN conjunct1, rule_format, OF f]
  note T2 = counted_request_ends_once [OF h1 h2 h3, of "''ok''" "\<lparr>SubConn = Some 1, Done = Some (InnerDone 7)\<rparr>",
      THEN conjunct2, rule_format, OF k]
  have d: "pickCalls (runDone (CountedDone ''svc'' (Some (InnerDone 7))) ''done'' idle)
             = [CallEndRequest ''svc'', CallDone 7 ''done'']"
    using T2[THEN conjunct2, rule_format, of "''done''" idle]
    by (simp add: logCall_def idle_def EndRequest_def)
  show ?thesis
    unfolding T1 T2[THEN conjunct1] d
    by (simp add: newDropPicker_def idle_def)
qed

section \<open>Properties of the EDS balancer\<close>

lemma keys_update: "keys (AList.update k v al) = insert k (keys al)"
  by (simp add: keys_def dom_update)

lemma keys_delete: "keys (AList.delete k al) = keys al - {k}"
  by (auto simp: keys_def AList.delete_eq)

lemma keys_map_of: "k \<in> keys al \<longleftrightarrow> map_of al k \<noteq> None"
  by (simp add: keys_def map_of_eq_None_iff)

lemma localityStep_spec:
  assumes "localityStep ts name (b, S, r, cs) l = (b', S', r', cs')"
  shows "(if ok ts (ID l)
          then S' = insert (ID l) S \<and> keys (configs b') = insert (ID l) (keys (configs b))
          else S' = S \<and> b' = b \<and> cs' = cs \<and> r' = r)
         \<and> bg b' = bg b \<and> stateAggregator b' = stateAggregator b
         \<and> (\<exists>new. cs' = cs @ new \<and> (ID l \<in> keys (configs b) \<longrightarrow> (\<forall>c \<in> set new. isUpdateOnly c)))"
proof (cases "ts (ID l)")
  case (Inl err)
  then show ?thesis using assms by (simp add: localityStep_def ok_def)
next
  case (Inr lidJSON)
  show ?thesis
  proof (cases "map_of (configs b) (ID l)")
    case None
    then have "ID l \<notin> keys (configs b)" by (simp add: keys_map_of)
    then show ?thesis using assms Inr None
      by (auto simp: localityStep_def ok_def Let_def keys_update split: if_splits)
  next
    case (Some config)
    then have "ID l \<in> keys (configs b)" by (simp add: keys_map_of)
    then show ?thesis using assms Inr Some
      by (auto simp: localityStep_def ok_def Let_def keys_update split: if_splits)
  qed
qed

lemma okIDs_Cons: "okIDs ts (l # ls) = (if ok ts (ID l) then insert (ID l) (okIDs ts ls) else okIDs ts ls)"
  by (auto simp: okIDs_def)

lemma okIDs_Nil: "okIDs ts [] = {}"
  by (simp add: okIDs_def)

lemma localitiesLoop_spec:
  "localitiesLoop ts name ls (b, S, r, cs) = (b', S', r', cs') \<Longrightarrow>
   S' = S \<union> okIDs ts ls
   \<and> keys (configs b') = keys (configs b) \<union> okIDs ts ls
   \<and> bg b' = bg b \<and> stateAggregator b' = stateAggregator b
   \<and> (\<exists>new. cs' = cs @ new
        \<and> (okIDs ts ls \<subseteq> keys (configs b) \<longrightarrow> (\<forall>c \<in> set new. isUpdateOnly c)))"
proof (induction ls arbitrary: b S r cs)
  case Nil
  then show ?case by (simp add: okIDs_Nil)
next
  case (Cons l ls)
  obtain b1 S1 r1 cs1 where st: "localityStep ts name (b, S, r, cs) l = (b1, S1, r1, cs1)"
    by (cases "localityStep ts name (b, S, r, cs) l") auto
  from Cons.prems st have rest: "localitiesLoop ts name ls (b1, S1, r1, cs1) = (b', S', r', cs')"
    by simp
  note step = localityStep_spec[OF st]
  note ih = Cons.IH[OF rest]
  from step obtain new1 where n1: "cs1 = cs @ new1"
    "ID l \<in> keys (configs b) \<longrightarrow> (\<forall>c \<in> set new1. isUpdateOnly c)" by blast
  from ih obtain new2 where n2: "cs' = cs1 @ new2"
    "okIDs ts ls \<subseteq> keys (configs b1) \<longrightarrow> (\<forall>c \<in> set new2. isUpdateOnly c)" by blast
  have k1: "keys (configs b1) = (if ok ts (ID l) then insert (ID l) (keys (configs b)) else keys (configs b))"
    using step by (auto split: if_splits)
  have s1: "S1 = (if ok ts (ID l) then insert (ID l) S else S)"
    using step by (auto split: if_splits)
  have a: "S' = S \<union> okIDs ts (l # ls)"
    using ih s1 by (auto simp: okIDs_Cons)
  have b: "keys (configs b') = keys (configs b) \<union> okIDs ts (l # ls)"
    using ih k1 by (auto simp: okIDs_Cons)
  have c: "bg b' = bg b \<and> stateAggregator b' = stateAggregator b"
    using ih step by simp
  have d: "cs' = cs @ (new1 @ new2)" using n1(1) n2(1) by simp
  have e: "okIDs ts (l # ls) \<subseteq> keys (configs b) \<longrightarrow> (\<forall>c \<in> set (new1 @ new2). isUpdateOnly c)"
  proof
    assume sub: "okIDs ts (l # ls) \<subseteq> keys (configs b)"
    have q1: "\<forall>c \<in> set new1. isUpdateOnly c"
    proof (cases "ok ts (ID l)")
      case True
      then have "ID l \<in> keys (configs b)" using sub by (auto simp: okIDs_Cons)
      then show ?thesis using n1(2) by simp
    next
      case False
      then have "cs1 = cs" using step by simp
      then show ?thesis using n1(1) by simp
    qed
    have "okIDs ts ls \<subseteq> keys (configs b1)" using sub k1 by (auto simp: okIDs_Cons split: if_splits)
    then have "\<forall>c \<in> set new2. isUpdateOnly c" using n2(2) by simp
    then show "\<forall>c \<in> set (new1 @ new2). isUpdateOnly c" using q1 by auto
  qed
  show ?case using a b c d e by blast
qed

lemma deleteLocalitiesLoop_spec:
  "deleteLocalitiesLoop ts S ks (b, r, cs) = (b', r', cs') \<Longrightarrow>
   keys (configs b') = keys (configs b) - {k \<in> set ks. ok ts k \<and> k \<notin> S}
   \<and> ((\<forall>k \<in> set ks. ok ts k \<longrightarrow> k \<in> S) \<longrightarrow> b' = b \<and> r' = r \<and> cs' = cs)"
proof (induction ks arbitrary: b r cs)
  case Nil
  then show ?case by simp
next
  case (Cons k ks)
  show ?case
  proof (cases "ts k")
    case (Inl err)
    then have nok: "\<not> ok ts k" by (simp add: ok_def)
    from Cons.prems Inl have "deleteLocalitiesLoop ts S ks (b, r, cs) = (b', r', cs')" by simp
    from Cons.IH[OF this] show ?thesis using nok by auto
  next
    case (Inr lidJSON)
    then have isok: "ok ts k" by (simp add: ok_def)
    show ?thesis
    proof (cases "k \<in> S")
      case True
      from Cons.prems Inr True have "deleteLocalitiesLoop ts S ks (b, r, cs) = (b', r', cs')" by simp
      from Cons.IH[OF this] show ?thesis using True by auto
    next
      case False
      let ?b1 = "b\<lparr>configs := AList.delete k (configs b)\<rparr>"
      from Cons.prems Inr False
      have "deleteLocalitiesLoop ts S ks
              (?b1, True, cs @ [AggregatorRemove (stateAggregator b) lidJSON, GroupRemove (bg b) lidJSON])
            = (b', r', cs')" by simp
      from Cons.IH[OF this] show ?thesis using False isok by (auto simp: keys_delete)
    qed
  qed
qed

lemma perPriority_settles:
  assumes "handleEDSResponsePerPriority ts e b ls = (b', cs)"
  shows "settled ts (configs b') ls"
proof -
  obtain b1 S1 r1 cs1 where l: "localitiesLoop ts (subBalancerBuilder e) ls (b, {}, False, []) = (b1, S1, r1, cs1)"
    by (cases "localitiesLoop ts (subBalancerBuilder e) ls (b, {}, False, [])") auto
  obtain b2 r2 cs2 where d: "deleteLocalitiesLoop ts S1 (map fst (configs b1)) (b1, r1, cs1) = (b2, r2, cs2)"
    by (cases "deleteLocalitiesLoop ts S1 (map fst (configs b1)) (b1, r1, cs1)") auto
  have b': "b' = b2" using assms l d by (simp add: handleEDSResponsePerPriority_def)
  from localitiesLoop_spec[OF l] have S1: "S1 = okIDs ts ls"
    and k1: "keys (configs b1) = keys (configs b) \<union> okIDs ts ls" by auto
  from deleteLocalitiesLoop_spec[OF d]
  have k2: "keys (configs b2) = keys (configs b1) - {k \<in> set (map fst (configs b1)). ok ts k \<and> k \<notin> S1}"
    by simp
  have ks: "set (map fst (configs b1)) = keys (configs b1)" by (simp add: keys_def)
  show ?thesis unfolding settled_def b' k2 ks S1 k1 by auto
qed

lemma perPriority_settled_quiet:
  assumes "handleEDSResponsePerPriority ts e b ls = (b', cs)" and "settled ts (configs b) ls"
  shows "(\<forall>c \<in> set cs. isUpdateOnly c) \<and> settled ts (configs b') ls"
proof -
  obtain b1 S1 r1 cs1 where l: "localitiesLoop ts (subBalancerBuilder e) ls (b, {}, False, []) = (b1, S1, r1, cs1)"
    by (cases "localitiesLoop ts (subBalancerBuilder e) ls (b, {}, False, [])") auto
  obtain b2 r2 cs2 where d: "deleteLocalitiesLoop ts S1 (map fst (configs b1)) (b1, r1, cs1) = (b2, r2, cs2)"
    by (cases "deleteLocalitiesLoop ts S1 (map fst (configs b1)) (b1, r1, cs1)") auto
  have res: "b' = b2" "cs = (if r2 then cs2 @ [AggregatorBuildAndUpdate (stateAggregator b2)] else cs2)"
    using assms(1) l d by (auto simp: handleEDSResponsePerPriority_def)
  from localitiesLoop_spec[OF l] assms(2) have S1: "S1 = okIDs ts ls"
    and k1: "keys (configs b1) = keys (configs b)"
    and q1: "\<forall>c \<in> set cs1. isUpdateOnly c"
    by (auto simp: settled_def)
  have ks: "set (map fst (configs b1)) = keys (configs b1)" by (simp add: keys_def)
  have "\<forall>k \<in> set (map fst (configs b1)). ok ts k \<longrightarrow> k \<in> S1"
    unfolding ks k1 S1 using assms(2) by (simp add: settled_def)
  with deleteLocalitiesLoop_spec[OF d] have same: "b2 = b1" "r2 = r1" "cs2 = cs1" by auto
  have "\<forall>c \<in> set cs. isUpdateOnly c" using res(2) same q1 by auto
  moreover have "settled ts (configs b') ls" using perPriority_settles[OF assms(1)] .
  ultimately show ?thesis by simp
qed

lemma bucketLoop_distinct:
  "distinct (map fst m) \<Longrightarrow> distinct (map fst (bucketLoop ls m))"
  by (induction ls arbitrary: m) (auto simp: Let_def distinct_update)

lemma sameConfig_refl: "sameConfig e e"
  by (simp add: sameConfig_def)

lemma sameConfig_trans: "sameConfig e2 e1 \<Longrightarrow> sameConfig e1 e \<Longrightarrow> sameConfig e2 e"
  by (simp add: sameConfig_def)

text \<open>One turn of the loop over the priorities, written out.\<close>

lemma prioritiesLoop_Cons:
  "prioritiesLoop ts ((p, ls) # rest) (e, lo, ch) =
     (let e1 = (case map_of (priorityToLocalities e) p of
                  None \<Rightarrow> (emit [NewGroup p] e)
                            \<lparr>priorityToLocalities :=
                               AList.update p \<lparr>bg = p, stateAggregator = p, configs = []\<rparr>
                                 (priorityToLocalities e)\<rparr>
                | Some b \<Rightarrow> e);
          b = (case map_of (priorityToLocalities e) p of
                 None \<Rightarrow> \<lparr>bg = p, stateAggregator = p, configs = []\<rparr> | Some b \<Rightarrow> b);
          r = handleEDSResponsePerPriority ts e1 b ls
      in prioritiesLoop ts rest
           ((emit (snd r) e1)\<lparr>priorityToLocalities := AList.update p (fst r) (priorityToLocalities e1)\<rparr>,
            if \<not> isSet lo \<or> higherThan lo p then p else lo,
            case map_of (priorityToLocalities e) p of None \<Rightarrow> True | Some b \<Rightarrow> ch))"
  by (simp add: Let_def split: option.splits prod.splits)

lemma prioritiesLoop_pass1:
  "distinct (map fst xs) \<Longrightarrow> prioritiesLoop ts xs (e, lo, ch) = (e', lo', ch') \<Longrightarrow>
   (\<forall>(p, ls) \<in> set xs. \<exists>b. map_of (priorityToLocalities e') p = Some b \<and> settled ts (configs b) ls)
   \<and> (\<forall>p. p \<notin> fst ` set xs \<longrightarrow> map_of (priorityToLocalities e') p = map_of (priorityToLocalities e) p)
   \<and> sameConfig e' e"
proof (induction xs arbitrary: e lo ch)
  case Nil
  then show ?case by (simp add: sameConfig_refl)
next
  case (Cons x xs)
  obtain p ls where x: "x = (p, ls)" by (cases x)
  let ?e1 = "(case map_of (priorityToLocalities e) p of
                  None \<Rightarrow> (emit [NewGroup p] e)
                            \<lparr>priorityToLocalities :=
                               AList.update p \<lparr>bg = p, stateAggregator = p, configs = []\<rparr>
                                 (priorityToLocalities e)\<rparr>
                | Some b \<Rightarrow> e)"
  let ?b = "(case map_of (priorityToLocalities e) p of
                 None \<Rightarrow> \<lparr>bg = p, stateAggregator = p, configs = []\<rparr> | Some b \<Rightarrow> b)"
  let ?r = "handleEDSResponsePerPriority ts ?e1 ?b ls"
  let ?e2 = "(emit (snd ?r) ?e1)\<lparr>priorityToLocalities := AList.update p (fst ?r) (priorityToLocalities ?e1)\<rparr>"
  let ?lo = "if \<not> isSet lo \<or> higherThan lo p then p else lo"
  let ?ch = "case map_of (priorityToLocalities e) p of None \<Rightarrow> True | Some b \<Rightarrow> ch"
  have rest: "prioritiesLoop ts xs (?e2, ?lo, ?ch) = (e', lo', ch')"
    using Cons.prems(2) unfolding x prioritiesLoop_Cons by (simp add: Let_def)
  have dist: "distinct (map fst xs)" and pnot: "p \<notin> fst ` set xs"
    using Cons.prems(1) x by auto
  note ih = Cons.IH[OF dist rest]
  have sett: "settled ts (configs (fst ?r)) ls"
    by (rule perPriority_settles[of ts ?e1 ?b ls "fst ?r" "snd ?r"]) simp
  have m2: "map_of (priorityToLocalities ?e2) = (map_of (priorityToLocalities ?e1))(p \<mapsto> fst ?r)"
    by (simp add: update_conv')
  have m1: "\<And>q. q \<noteq> p \<Longrightarrow> map_of (priorityToLocalities ?e1) q = map_of (priorityToLocalities e) q"
    by (simp add: update_conv' emit_def split: option.splits)
  have sc: "sameConfig ?e2 e"
    by (simp add: sameConfig_def emit_def split: option.splits)
  have a: "map_of (priorityToLocalities e') p = Some (fst ?r)"
    using ih pnot m2 by simp
  have b: "\<forall>q. q \<notin> fst ` set (x # xs) \<longrightarrow> map_of (priorityToLocalities e') q = map_of (priorityToLocalities e) q"
    using ih m2 m1 x by auto
  have c: "sameConfig e' e" using ih sc sameConfig_trans by blast
  show ?case using ih a b c sett x by auto
qed

lemma prioritiesLoop_pass2:
  "distinct (map fst xs) \<Longrightarrow> prioritiesLoop ts xs (e, lo, ch) = (e', lo', ch') \<Longrightarrow>
   \<forall>(p, ls) \<in> set xs. \<exists>b. map_of (priorityToLocalities e) p = Some b \<and> settled ts (configs b) ls \<Longrightarrow>
   ch' = ch
   \<and> (\<exists>cs. edsCalls e' = edsCalls e @ cs \<and> (\<forall>c \<in> set cs. isUpdateOnly c))
   \<and> keys (priorityToLocalities e') = keys (priorityToLocalities e)
   \<and> sameConfig e' e"
proof (induction xs arbitrary: e lo ch)
  case Nil
  then show ?case by (simp add: sameConfig_refl)
next
  case (Cons x xs)
  obtain p ls where x: "x = (p, ls)" by (cases x)
  from Cons.prems(3) x obtain b where b: "map_of (priorityToLocalities e) p = Some b"
    and sb: "settled ts (configs b) ls" by auto
  let ?r = "handleEDSResponsePerPriority ts e b ls"
  let ?e2 = "(emit (snd ?r) e)\<lparr>priorityToLocalities := AList.update p (fst ?r) (priorityToLocalities e)\<rparr>"
  let ?lo = "if \<not> isSet lo \<or> higherThan lo p then p else lo"
  have rest: "prioritiesLoop ts xs (?e2, ?lo, ch) = (e', lo', ch')"
    using Cons.prems(2) unfolding x prioritiesLoop_Cons by (simp add: Let_def b)
  have dist: "distinct (map fst xs)" and pnot: "p \<notin> fst ` set xs"
    using Cons.prems(1) x by auto
  have quiet: "\<forall>c \<in> set (snd ?r). isUpdateOnly c"
    using perPriority_settled_quiet[of ts e b ls "fst ?r" "snd ?r"] sb by simp
  have inv: "\<forall>(q, ls') \<in> set xs. \<exists>b'. map_of (priorityToLocalities ?e2) q = Some b' \<and> settled ts (configs b') ls'"
  proof (clarify)
    fix q ls' assume mem: "(q, ls') \<in> set xs"
    then have "q \<noteq> p" using pnot by force
    moreover from Cons.prems(3) mem obtain b' where
      "map_of (priorityToLocalities e) q = Some b'" "settled ts (configs b') ls'" by auto
    ultimately show "\<exists>b'. map_of (priorityToLocalities ?e2) q = Some b' \<and> settled ts (configs b') ls'"
      by (simp add: update_conv')
  qed
  note ih = Cons.IH[OF dist rest inv]
  from ih obtain cs where cs: "edsCalls e' = edsCalls ?e2 @ cs" "\<forall>c \<in> set cs. isUpdateOnly c" by blast
  have c1: "edsCalls e' = edsCalls e @ (snd ?r @ cs)" using cs(1) by (simp add: emit_def)
  have c2: "\<forall>c \<in> set (snd ?r @ cs). isUpdateOnly c" using quiet cs(2) by auto
  have pin: "p \<in> keys (priorityToLocalities e)" using b by (simp add: keys_map_of)
  have k: "keys (priorityToLocalities ?e2) = keys (priorityToLocalities e)"
    using pin by (auto simp: keys_update)
  have sc: "sameConfig ?e2 e" by (simp add: sameConfig_def emit_def)
  have "sameConfig e' e" using ih sc sameConfig_trans by blast
  moreover have "ch' = ch" using ih by simp
  moreover have "keys (priorityToLocalities e') = keys (priorityToLocalities e)" using ih k by simp
  ultimately show ?case using c1 c2 by blast
qed

lemma deletePrioritiesLoop_spec:
  "deletePrioritiesLoop nm ks (e, ch) = (e', ch') \<Longrightarrow>
   (\<forall>p. map_of (priorityToLocalities e') p
          = (if p \<in> set ks \<and> map_of nm p = None then None else map_of (priorityToLocalities e) p))
   \<and> sameConfig e' e"
proof (induction ks arbitrary: e ch)
  case Nil
  then show ?case by (simp add: sameConfig_refl)
next
  case (Cons k ks)
  show ?case
  proof (cases "map_of nm k = None \<and> map_of (priorityToLocalities e) k \<noteq> None")
    case True
    then obtain b where b: "map_of (priorityToLocalities e) k = Some b" by auto
    let ?e1 = "(emit [GroupClose (bg b)] e)
                  \<lparr>priorityToLocalities := AList.delete k (priorityToLocalities e),
                   priorityToState := AList.delete k (priorityToState e)\<rparr>"
    from Cons.prems True b have "deletePrioritiesLoop nm ks (?e1, True) = (e', ch')" by simp
    note ih = Cons.IH[OF this]
    have sc: "sameConfig ?e1 e" by (simp add: sameConfig_def emit_def)
    have "sameConfig e' e" using ih sc sameConfig_trans by blast
    moreover have "\<forall>p. map_of (priorityToLocalities e') p
          = (if p \<in> set (k # ks) \<and> map_of nm p = None then None else map_of (priorityToLocalities e) p)"
      using ih True by (auto simp: delete_conv')
    ultimately show ?thesis by simp
  next
    case False
    then have "deletePrioritiesLoop nm ks (e, ch) = (e', ch')"
      using Cons.prems by (auto split: option.splits)
    note ih = Cons.IH[OF this]
    show ?thesis using ih False by auto
  qed
qed

lemma deletePrioritiesLoop_noop:
  "\<forall>p \<in> set ks. map_of nm p \<noteq> None \<Longrightarrow> deletePrioritiesLoop nm ks (e, ch) = (e, ch)"
  by (induction ks) auto

lemma updateDrops_calls:
  "\<exists>cs. edsCalls (updateDrops e d) = edsCalls e @ cs
        \<and> (\<forall>c \<in> set cs. \<exists>st p. c = UpdateState st (DropPicker p))"
  by (auto simp: updateDrops_def emit_def Let_def split: option.splits)

lemma updateDrops_fields:
  "respReceived (updateDrops e d) = respReceived e"
  "priorityToLocalities (updateDrops e d) = priorityToLocalities e"
  "dropConfig (updateDrops e d) = d"
  by (auto simp: updateDrops_def emit_def Let_def split: option.splits)

lemma updateDrops_same: "dropConfig e = d \<Longrightarrow> updateDrops e d = e"
  by (simp add: updateDrops_def)

lemma deletePrioritiesLoop_empty:
  "deletePrioritiesLoop [] ks (e, ch) = (e', ch') \<Longrightarrow>
   (\<exists>cs. edsCalls e' = edsCalls e @ cs \<and> (\<forall>c \<in> set cs. \<exists>p. c = GroupClose p))
   \<and> fst ` set (priorityToLocalities e') = fst ` set (priorityToLocalities e) - set ks
   \<and> respReceived e' = respReceived e \<and> dropConfig e' = dropConfig e
   \<and> priorityLowest e' = priorityLowest e"
proof (induction ks arbitrary: e ch)
  case Nil
  then show ?case by simp
next
  case (Cons p ks)
  show ?case
  proof (cases "map_of (priorityToLocalities e) p")
    case None
    then have notin: "p \<notin> fst ` set (priorityToLocalities e)"
      by (simp add: map_of_eq_None_iff)
    from Cons.prems None have "deletePrioritiesLoop [] ks (e, ch) = (e', ch')" by simp
    from Cons.IH[OF this] show ?thesis using notin by auto
  next
    case (Some bgwc)
    let ?e1 = "(emit [GroupClose (bg bgwc)] e)
                  \<lparr>priorityToLocalities := AList.delete p (priorityToLocalities e),
                   priorityToState := AList.delete p (priorityToState e)\<rparr>"
    from Cons.prems Some have "deletePrioritiesLoop [] ks (?e1, True) = (e', ch')" by simp
    from Cons.IH[OF this] obtain cs where
      c: "edsCalls e' = edsCalls ?e1 @ cs" "\<forall>c \<in> set cs. \<exists>p. c = GroupClose p"
      and k: "fst ` set (priorityToLocalities e') = fst ` set (priorityToLocalities ?e1) - set ks"
      and r: "respReceived e' = respReceived ?e1" "dropConfig e' = dropConfig ?e1"
             "priorityLowest e' = priorityLowest ?e1"
      by blast
    have k1: "fst ` set (AList.delete p (priorityToLocalities e))
                = fst ` set (priorityToLocalities e) - {p}"
      by (auto simp: AList.delete_eq)
    have "edsCalls e' = edsCalls e @ (GroupClose (bg bgwc) # cs)"
      using c(1) by (simp add: emit_def)
    moreover have "\<forall>c \<in> set (GroupClose (bg bgwc) # cs). \<exists>p. c = GroupClose p"
      using c(2) by simp
    ultimately have "\<exists>cs. edsCalls e' = edsCalls e @ cs \<and> (\<forall>c \<in> set cs. \<exists>p. c = GroupClose p)"
      by blast
    then show ?thesis using k k1 r by (auto simp: emit_def)
  qed
qed

lemma respReceived_True: "respReceived e \<Longrightarrow> e\<lparr>respReceived := True\<rparr> = e"
  by (cases e) simp

lemma priorityLowest_same: "priorityLowest e = p \<Longrightarrow> e\<lparr>priorityLowest := p\<rparr> = e"
  by (cases e) auto

lemma handleEDSResponse_empty:
  "\<exists>cs e'. handleEDSResponse ts e EndpointsUpdate0 = e'
     \<and> edsCalls e' = edsCalls e
          @ (if respReceived e then [] else [UpdateState TransientFailure (ErrPicker ErrAllPrioritiesRemoved)])
          @ cs
     \<and> UpdateState TransientFailure (ErrPicker ErrAllPrioritiesRemoved) \<notin> set cs
     \<and> respReceived e' \<and> dropConfig e' = None \<and> priorityToLocalities e' = []
     \<and> priorityLowest e' = None"
proof -
  let ?e1 = "if \<not> respReceived e
             then emit [UpdateState TransientFailure (ErrPicker ErrAllPrioritiesRemoved)] e else e"
  let ?e2 = "?e1\<lparr>respReceived := True\<rparr>"
  let ?e3 = "updateDrops ?e2 None"
  let ?e5 = "?e3\<lparr>priorityLowest := None\<rparr>"
  obtain e6 ch where d: "deletePrioritiesLoop [] (map fst (priorityToLocalities ?e5)) (?e5, False) = (e6, ch)"
    by (cases "deletePrioritiesLoop [] (map fst (priorityToLocalities ?e5)) (?e5, False)")
  have h: "handleEDSResponse ts e EndpointsUpdate0 = (if ch then emit [HandlePriorityChange] e6 else e6)"
    using d by (simp add: handleEDSResponse_def EndpointsUpdate0_def elems_def Let_def)
  from deletePrioritiesLoop_empty[OF d] obtain cs2 where
    c2: "edsCalls e6 = edsCalls ?e5 @ cs2" "\<forall>c \<in> set cs2. \<exists>p. c = GroupClose p"
    and k: "fst ` set (priorityToLocalities e6) = {}"
    and r: "respReceived e6 = respReceived ?e5" "dropConfig e6 = dropConfig ?e5"
           "priorityLowest e6 = priorityLowest ?e5"
    by auto
  from updateDrops_calls[of ?e2 None] obtain cs1 where
    c1: "edsCalls ?e3 = edsCalls ?e2 @ cs1" "\<forall>c \<in> set cs1. \<exists>st p. c = UpdateState st (DropPicker p)"
    by blast
  let ?cs = "cs1 @ cs2 @ (if ch then [HandlePriorityChange] else [])"
  have calls: "edsCalls (if ch then emit [HandlePriorityChange] e6 else e6)
      = edsCalls e
          @ (if respReceived e then [] else [UpdateState TransientFailure (ErrPicker ErrAllPrioritiesRemoved)])
          @ ?cs"
    using c2(1) c1(1) by (simp add: emit_def)
  have notin: "UpdateState TransientFailure (ErrPicker ErrAllPrioritiesRemoved) \<notin> set ?cs"
    using c1(2) c2(2) by auto
  have fields: "respReceived (if ch then emit [HandlePriorityChange] e6 else e6)"
    "dropConfig (if ch then emit [HandlePriorityChange] e6 else e6) = None"
    "priorityToLocalities (if ch then emit [HandlePriorityChange] e6 else e6) = []"
    "priorityLowest (if ch then emit [HandlePriorityChange] e6 else e6) = None"
    using r k by (simp_all add: emit_def updateDrops_fields)
  show ?thesis unfolding h using calls notin fields by blast
qed

lemma isUpdateOnly_not_AddOrRemove: "isUpdateOnly c \<Longrightarrow> \<not> isAddOrRemove c"
  by (cases c) simp_all

lemma handleEDSResponse_unfold:
  "handleEDSResponse ts e u =
     (let nm = bucketLoop (elems (Localities u)) [];
          r = prioritiesLoop ts nm (updateDrops (received e u) (Drops u), None, False);
          e5 = (fst r)\<lparr>priorityLowest := fst (snd r)\<rparr>;
          d = deletePrioritiesLoop nm (map fst (priorityToLocalities e5)) (e5, snd (snd r))
      in if snd d then emit [HandlePriorityChange] (fst d) else fst d)"
  by (simp add: handleEDSResponse_def received_def Let_def split: prod.splits)

lemma handleEDSResponse_after:
  fixes ts e u
  defines "nm \<equiv> bucketLoop (elems (Localities u)) []"
  defines "e1 \<equiv> handleEDSResponse ts e u"
  shows "respReceived e1 \<and> dropConfig e1 = Drops u
         \<and> (\<forall>(p, ls) \<in> set nm. \<exists>b. map_of (priorityToLocalities e1) p = Some b \<and> settled ts (configs b) ls)
         \<and> (\<forall>p \<in> keys (priorityToLocalities e1). map_of nm p \<noteq> None)"
proof -
  let ?e3 = "updateDrops (received e u) (Drops u)"
  obtain e4 lo ch where pl: "prioritiesLoop ts nm (?e3, None, False) = (e4, lo, ch)"
    by (cases "prioritiesLoop ts nm (?e3, None, False)") auto
  let ?e5 = "e4\<lparr>priorityLowest := lo\<rparr>"
  obtain e6 ch' where dl: "deletePrioritiesLoop nm (map fst (priorityToLocalities ?e5)) (?e5, ch) = (e6, ch')"
    by (cases "deletePrioritiesLoop nm (map fst (priorityToLocalities ?e5)) (?e5, ch)") auto
  have e1: "e1 = (if ch' then emit [HandlePriorityChange] e6 else e6)"
    unfolding e1_def handleEDSResponse_unfold nm_def[symmetric] using pl dl by (simp add: Let_def)
  have dist: "distinct (map fst nm)" unfolding nm_def by (rule bucketLoop_distinct) simp
  note p1 = prioritiesLoop_pass1[OF dist pl]
  note d1 = deletePrioritiesLoop_spec[OF dl]
  have m: "map_of (priorityToLocalities e1) = map_of (priorityToLocalities e6)"
    unfolding e1 by (simp add: emit_def)
  have sc: "sameConfig e6 ?e3"
    using p1 d1 by (simp add: sameConfig_def)
  have a: "respReceived e1 \<and> dropConfig e1 = Drops u"
    using sc unfolding e1 by (simp add: sameConfig_def emit_def updateDrops_fields received_def)
  have b: "\<forall>(p, ls) \<in> set nm. \<exists>b. map_of (priorityToLocalities e1) p = Some b \<and> settled ts (configs b) ls"
  proof (clarify)
    fix p ls assume mem: "(p, ls) \<in> set nm"
    then have "p \<in> fst ` set nm" by force
    then have nn: "map_of nm p \<noteq> None" by (simp add: map_of_eq_None_iff)
    have "map_of (priorityToLocalities e6) p
            = (if p \<in> set (map fst (priorityToLocalities (e4\<lparr>priorityLowest := lo\<rparr>))) \<and> map_of nm p = None
               then None else map_of (priorityToLocalities (e4\<lparr>priorityLowest := lo\<rparr>)) p)"
      using d1 by blast
    then have "map_of (priorityToLocalities e1) p = map_of (priorityToLocalities e4) p"
      unfolding m using nn by simp
    then show "\<exists>b. map_of (priorityToLocalities e1) p = Some b \<and> settled ts (configs b) ls"
      using p1 mem by auto
  qed
  have c: "\<forall>p \<in> keys (priorityToLocalities e1). map_of nm p \<noteq> None"
  proof
    fix p assume "p \<in> keys (priorityToLocalities e1)"
    then have some: "map_of (priorityToLocalities e6) p \<noteq> None" by (simp add: keys_map_of m)
    then have "\<not> (p \<in> set (map fst (priorityToLocalities ?e5)) \<and> map_of nm p = None)"
      and "map_of (priorityToLocalities ?e5) p \<noteq> None"
      using d1 by (auto split: if_splits)
    then show "map_of nm p \<noteq> None" by (auto simp: map_of_eq_None_iff)
  qed
  show ?thesis using a b c by simp
qed

lemma received_again: "respReceived e \<Longrightarrow> received e u = e"
  by (simp add: received_def respReceived_True)

lemma second_application_calls:
  "\<exists>cs. edsCalls (handleEDSResponse ts (handleEDSResponse ts e u) u)
           = edsCalls (handleEDSResponse ts e u) @ cs
       \<and> (\<forall>c \<in> set cs. isUpdateOnly c)
       \<and> filter isAddOrRemove cs = []"
proof -
  define nm where "nm = bucketLoop (elems (Localities u)) []"
  define e1 where "e1 = handleEDSResponse ts e u"
  from handleEDSResponse_after[of ts e u]
  have rr: "respReceived e1" and dc: "dropConfig e1 = Drops u"
    and sett: "\<forall>(p, ls) \<in> set nm. \<exists>b. map_of (priorityToLocalities e1) p = Some b \<and> settled ts (configs b) ls"
    and ks: "\<forall>p \<in> keys (priorityToLocalities e1). map_of nm p \<noteq> None"
    unfolding nm_def e1_def by auto
  have e3: "updateDrops (received e1 u) (Drops u) = e1"
    using rr dc by (simp add: received_again updateDrops_same)
  obtain e4 lo ch where pl: "prioritiesLoop ts nm (e1, None, False) = (e4, lo, ch)"
    by (cases "prioritiesLoop ts nm (e1, None, False)") auto
  have dist: "distinct (map fst nm)" unfolding nm_def by (rule bucketLoop_distinct) simp
  from prioritiesLoop_pass2[OF dist pl sett] obtain cs where
    ch: "ch = False" and cs: "edsCalls e4 = edsCalls e1 @ cs" "\<forall>c \<in> set cs. isUpdateOnly c"
    and k4: "keys (priorityToLocalities e4) = keys (priorityToLocalities e1)"
    by blast
  let ?e5 = "e4\<lparr>priorityLowest := lo\<rparr>"
  have "\<forall>p \<in> set (map fst (priorityToLocalities ?e5)). map_of nm p \<noteq> None"
    using ks k4 by (simp add: keys_def)
  then have dl: "deletePrioritiesLoop nm (map fst (priorityToLocalities ?e5)) (?e5, False) = (?e5, False)"
    by (rule deletePrioritiesLoop_noop)
  have "handleEDSResponse ts e1 u = ?e5"
    unfolding handleEDSResponse_unfold[of ts e1 u] nm_def[symmetric] e3
    using pl ch dl by (simp add: Let_def)
  then have "edsCalls (handleEDSResponse ts e1 u) = edsCalls e1 @ cs" using cs(1) by simp
  moreover have "filter isAddOrRemove cs = []"
    using cs(2) isUpdateOnly_not_AddOrRemove by (auto simp: filter_empty_conv)
  ultimately show ?thesis using cs(2) unfolding e1_def by blast
qed

text \<open>
  C3. When no response was received before, \<open>handleEDSResponse\<close> with the empty
  EndpointsUpdate first publishes the state TransientFailure with the error picker for
  AllPrioritiesRemoved, once; that picker returns the error on every pick. After any
  call, empty update or not, the flag \<open>respReceived\<close> is set. A second empty update
  right after the first makes no call and changes nothing, so it does not publish the
  picker again.
\<close>

theorem first_empty_update_fails_picks:
  "(\<not> respReceived e \<longrightarrow>
      (\<exists>cs. edsCalls (handleEDSResponse ts e EndpointsUpdate0)
               = edsCalls e @ UpdateState TransientFailure (ErrPicker ErrAllPrioritiesRemoved) # cs
           \<and> UpdateState TransientFailure (ErrPicker ErrAllPrioritiesRemoved) \<notin> set cs))
   \<and> balancerPick (ErrPicker ErrAllPrioritiesRemoved) rnd info s
       = Returned ((PickResult0, Some ErrAllPrioritiesRemoved), s)
   \<and> respReceived (handleEDSResponse ts e edsResp)
   \<and> handleEDSResponse ts (handleEDSResponse ts e EndpointsUpdate0) EndpointsUpdate0
       = handleEDSResponse ts e EndpointsUpdate0"
proof (intro conjI impI)
  assume "\<not> respReceived e"
  then show "\<exists>cs. edsCalls (handleEDSResponse ts e EndpointsUpdate0)
               = edsCalls e @ UpdateState TransientFailure (ErrPicker ErrAllPrioritiesRemoved) # cs
           \<and> UpdateState TransientFailure (ErrPicker ErrAllPrioritiesRemoved) \<notin> set cs"
    using handleEDSResponse_empty[of ts e] by auto
next
  show "balancerPick (ErrPicker ErrAllPrioritiesRemoved) rnd info s
       = Returned ((PickResult0, Some ErrAllPrioritiesRemoved), s)"
    by simp
next
  show "respReceived (handleEDSResponse ts e edsResp)"
    using handleEDSResponse_after[of ts e edsResp] by simp
next
  let ?e = "handleEDSResponse ts e EndpointsUpdate0"
  from handleEDSResponse_empty[of ts e]
  have f: "respReceived ?e" "dropConfig ?e = None" "priorityToLocalities ?e = []"
    "priorityLowest ?e = None" by auto
  show "handleEDSResponse ts ?e EndpointsUpdate0 = ?e"
    using f by (simp add: handleEDSResponse_def EndpointsUpdate0_def elems_def Let_def
        respReceived_True updateDrops_same priorityLowest_same)
qed

lemma addrsLoop_spec:
  "\<exists>as. elems (addrsLoop name eps acc) = elems acc @ as
        \<and> list_all2 (forwards name) (filter usable eps) as"
proof (induction eps arbitrary: acc)
  case Nil
  then show ?case by simp
next
  case (Cons ep eps)
  show ?case
  proof (cases "usable ep")
    case False
    then show ?thesis using Cons[of acc] by (simp add: usable_def)
  next
    case True
    let ?a = "if name = weightedroundrobinName \<and> EndpointWeight ep \<noteq> 0
              then (SetAddrInfo \<lparr>Addr = Address ep, Attributes = None, Metadata = None\<rparr> (EndpointWeight ep))
                     \<lparr>Metadata := Some (EndpointWeight ep)\<rparr>
              else \<lparr>Addr = Address ep, Attributes = None, Metadata = None\<rparr>"
    have step: "addrsLoop name (ep # eps) acc = addrsLoop name eps (append1 acc ?a)"
      using True by (auto simp: usable_def Let_def)
    have fa: "forwards name ep ?a" by (simp add: forwards_def SetAddrInfo_def)
    from Cons[of "append1 acc ?a"] obtain as where
      as: "elems (addrsLoop name eps (append1 acc ?a)) = elems (append1 acc ?a) @ as"
          "list_all2 (forwards name) (filter usable eps) as" by blast
    have "elems (addrsLoop name (ep # eps) acc) = elems acc @ (?a # as)"
      unfolding step as(1) by (simp add: append1_def elems_def)
    moreover have "list_all2 (forwards name) (filter usable (ep # eps)) (?a # as)"
      using True fa as(2) by simp
    ultimately show ?thesis by blast
  qed
qed

lemma addrsLoop_forwards:
  "list_all2 (forwards name) (filter usable eps) (elems (addrsLoop name eps None))"
  using addrsLoop_spec[of name eps None] by (auto simp: elems_def)

lemma localityStep_forward:
  assumes "localityStep ts name (b, S, r, cs) l = (b', S', r', cs')"
  shows "\<exists>new. cs' = cs @ new
          \<and> (\<forall>g key as. GroupUpdateClientConnState g key as \<in> set new \<longrightarrow>
                g = bg b \<and> ts (ID l) = Inr key \<and> as = addrsLoop name (Endpoints l) None)
          \<and> (\<forall>key. ts (ID l) = Inr key \<and> map_of (configs b) (ID l) = None \<longrightarrow>
                GroupUpdateClientConnState (bg b) key (addrsLoop name (Endpoints l) None) \<in> set new)"
proof (cases "ts (ID l)")
  case (Inl err)
  then show ?thesis using assms by (simp add: localityStep_def)
next
  case (Inr lidJSON)
  show ?thesis
  proof (cases "map_of (configs b) (ID l)")
    case None
    then show ?thesis using assms Inr
      by (auto simp: localityStep_def Let_def split: if_splits)
  next
    case (Some config)
    then show ?thesis using assms Inr
      by (auto simp: localityStep_def Let_def split: if_splits)
  qed
qed

lemma localitiesLoop_forward:
  "localitiesLoop ts name ls (b, S, r, cs) = (b', S', r', cs') \<Longrightarrow>
   \<exists>new. cs' = cs @ new
     \<and> (\<forall>g key as. GroupUpdateClientConnState g key as \<in> set new \<longrightarrow>
           g = bg b \<and> (\<exists>l \<in> set ls. ts (ID l) = Inr key \<and> as = addrsLoop name (Endpoints l) None))
     \<and> (\<forall>l \<in> set ls. \<forall>key. ts (ID l) = Inr key \<and> ID l \<notin> keys (configs b) \<longrightarrow>
           (\<exists>as. GroupUpdateClientConnState (bg b) key as \<in> set new))"
proof (induction ls arbitrary: b S r cs)
  case Nil
  then show ?case by simp
next
  case (Cons l0 ls)
  obtain b1 S1 r1 cs1 where st: "localityStep ts name (b, S, r, cs) l0 = (b1, S1, r1, cs1)"
    by (cases "localityStep ts name (b, S, r, cs) l0") auto
  from Cons.prems st have rest: "localitiesLoop ts name ls (b1, S1, r1, cs1) = (b', S', r', cs')"
    by simp
  from localityStep_forward[OF st] obtain new1 where n1: "cs1 = cs @ new1"
    and f1: "\<forall>g key as. GroupUpdateClientConnState g key as \<in> set new1 \<longrightarrow>
                g = bg b \<and> ts (ID l0) = Inr key \<and> as = addrsLoop name (Endpoints l0) None"
    and a1: "\<forall>key. ts (ID l0) = Inr key \<and> map_of (configs b) (ID l0) = None \<longrightarrow>
                GroupUpdateClientConnState (bg b) key (addrsLoop name (Endpoints l0) None) \<in> set new1"
    by blast
  from Cons.IH[OF rest] obtain new2 where n2: "cs' = cs1 @ new2"
    and f2: "\<forall>g key as. GroupUpdateClientConnState g key as \<in> set new2 \<longrightarrow>
           g = bg b1 \<and> (\<exists>l \<in> set ls. ts (ID l) = Inr key \<and> as = addrsLoop name (Endpoints l) None)"
    and a2: "\<forall>l \<in> set ls. \<forall>key. ts (ID l) = Inr key \<and> ID l \<notin> keys (configs b1) \<longrightarrow>
           (\<exists>as. GroupUpdateClientConnState (bg b1) key as \<in> set new2)"
    by blast
  note sp = localityStep_spec[OF st]
  have bg1: "bg b1 = bg b" using sp by simp
  have k1: "keys (configs b1) \<subseteq> insert (ID l0) (keys (configs b))"
    using sp by (auto split: if_splits)
  have c: "cs' = cs @ (new1 @ new2)" using n1 n2 by simp
  have f: "\<forall>g key as. GroupUpdateClientConnState g key as \<in> set (new1 @ new2) \<longrightarrow>
           g = bg b \<and> (\<exists>l \<in> set (l0 # ls). ts (ID l) = Inr key \<and> as = addrsLoop name (Endpoints l) None)"
    using f1 f2 bg1 by auto
  have a: "\<forall>l \<in> set (l0 # ls). \<forall>key. ts (ID l) = Inr key \<and> ID l \<notin> keys (configs b) \<longrightarrow>
           (\<exists>as. GroupUpdateClientConnState (bg b) key as \<in> set (new1 @ new2))"
  proof (intro ballI allI impI)
    fix l key assume l: "l \<in> set (l0 # ls)" and h: "ts (ID l) = Inr key \<and> ID l \<notin> keys (configs b)"
    show "\<exists>as. GroupUpdateClientConnState (bg b) key as \<in> set (new1 @ new2)"
    proof (cases "ID l = ID l0")
      case True
      then have "ts (ID l0) = Inr key \<and> map_of (configs b) (ID l0) = None"
        using h by (simp add: keys_map_of)
      then show ?thesis using a1 by auto
    next
      case False
      then have "l \<in> set ls" using l by auto
      moreover have "ID l \<notin> keys (configs b1)" using False h k1 by auto
      ultimately show ?thesis using a2 h bg1 by auto
    qed
  qed
  show ?case using c f a by blast
qed

lemma deleteLocalitiesLoop_calls:
  "deleteLocalitiesLoop ts S ks (b, r, cs) = (b', r', cs') \<Longrightarrow>
   \<exists>new. cs' = cs @ new \<and> (\<forall>c \<in> set new. isAddOrRemove c)"
proof (induction ks arbitrary: b r cs)
  case Nil
  then show ?case by simp
next
  case (Cons k ks)
  show ?case
  proof (cases "ts k")
    case (Inl err)
    with Cons.prems have "deleteLocalitiesLoop ts S ks (b, r, cs) = (b', r', cs')" by simp
    from Cons.IH[OF this] show ?thesis .
  next
    case (Inr lidJSON)
    show ?thesis
    proof (cases "k \<in> S")
      case True
      with Cons.prems Inr have "deleteLocalitiesLoop ts S ks (b, r, cs) = (b', r', cs')" by simp
      from Cons.IH[OF this] show ?thesis .
    next
      case False
      with Cons.prems Inr
      have "deleteLocalitiesLoop ts S ks
              (b\<lparr>configs := AList.delete k (configs b)\<rparr>, True,
               cs @ [AggregatorRemove (stateAggregator b) lidJSON, GroupRemove (bg b) lidJSON])
            = (b', r', cs')" by simp
      from Cons.IH[OF this] obtain new where
        "cs' = (cs @ [AggregatorRemove (stateAggregator b) lidJSON, GroupRemove (bg b) lidJSON]) @ new"
        "\<forall>c \<in> set new. isAddOrRemove c" by blast
      then have "cs' = cs @ ([AggregatorRemove (stateAggregator b) lidJSON, GroupRemove (bg b) lidJSON] @ new)
          \<and> (\<forall>c \<in> set ([AggregatorRemove (stateAggregator b) lidJSON, GroupRemove (bg b) lidJSON] @ new). isAddOrRemove c)"
        by simp
      then show ?thesis by blast
    qed
  qed
qed

text \<open>
  C4. Every address list that \<open>handleEDSResponsePerPriority\<close> forwards to a child
  balancer goes to the group it was called for, under the key of one of the new
  localities, and holds, in order, exactly the usable endpoints of that locality in
  their forwarded form: an address carries the weight if and only if the child policy
  is weighted round robin and the endpoint's weight is not zero. A locality that is new
  to the group has its list forwarded.
\<close>

theorem forwarded_addresses_are_healthy:
  assumes "handleEDSResponsePerPriority ts e b ls = (b', cs)"
  shows "(\<forall>g key as. GroupUpdateClientConnState g key as \<in> set cs \<longrightarrow>
            g = bg b
            \<and> (\<exists>l \<in> set ls. ts (ID l) = Inr key
                  \<and> list_all2 (forwards (subBalancerBuilder e)) (filter usable (Endpoints l)) (elems as)))
         \<and> (\<forall>l \<in> set ls. \<forall>key. ts (ID l) = Inr key \<and> map_of (configs b) (ID l) = None \<longrightarrow>
              (\<exists>as. GroupUpdateClientConnState (bg b) key as \<in> set cs))"
proof -
  let ?name = "subBalancerBuilder e"
  obtain b1 S1 r1 cs1 where l: "localitiesLoop ts ?name ls (b, {}, False, []) = (b1, S1, r1, cs1)"
    by (cases "localitiesLoop ts ?name ls (b, {}, False, [])") auto
  obtain b2 r2 cs2 where d: "deleteLocalitiesLoop ts S1 (map fst (configs b1)) (b1, r1, cs1) = (b2, r2, cs2)"
    by (cases "deleteLocalitiesLoop ts S1 (map fst (configs b1)) (b1, r1, cs1)") auto
  have cs: "cs = (if r2 then cs2 @ [AggregatorBuildAndUpdate (stateAggregator b2)] else cs2)"
    using assms l d by (auto simp: handleEDSResponsePerPriority_def)
  from localitiesLoop_forward[OF l]
  have f1: "\<forall>g key as. GroupUpdateClientConnState g key as \<in> set cs1 \<longrightarrow>
           g = bg b \<and> (\<exists>l \<in> set ls. ts (ID l) = Inr key \<and> as = addrsLoop ?name (Endpoints l) None)"
    and a1: "\<forall>l \<in> set ls. \<forall>key. ts (ID l) = Inr key \<and> ID l \<notin> keys (configs b) \<longrightarrow>
           (\<exists>as. GroupUpdateClientConnState (bg b) key as \<in> set cs1)"
    by auto
  from deleteLocalitiesLoop_calls[OF d] obtain new where
    n: "cs2 = cs1 @ new" "\<forall>c \<in> set new. isAddOrRemove c" by blast
  have mem: "\<And>g key as. GroupUpdateClientConnState g key as \<in> set cs
                \<longleftrightarrow> GroupUpdateClientConnState g key as \<in> set cs1"
    using n unfolding cs by auto
  show ?thesis
  proof (intro conjI allI impI ballI)
    fix g key as assume "GroupUpdateClientConnState g key as \<in> set cs"
    then have "GroupUpdateClientConnState g key as \<in> set cs1" by (simp add: mem)
    with f1 obtain l where g: "g = bg b" and l: "l \<in> set ls" "ts (ID l) = Inr key"
      "as = addrsLoop ?name (Endpoints l) None" by blast
    show "g = bg b" by (rule g)
    show "\<exists>l \<in> set ls. ts (ID l) = Inr key
            \<and> list_all2 (forwards ?name) (filter usable (Endpoints l)) (elems as)"
      using l addrsLoop_forwards[of ?name "Endpoints l"] by auto
  next
    fix l key assume "l \<in> set ls" and h: "ts (ID l) = Inr key \<and> map_of (configs b) (ID l) = None"
    then have "\<exists>as. GroupUpdateClientConnState (bg b) key as \<in> set cs1"
      using a1 by (auto simp: keys_map_of)
    then show "\<exists>as. GroupUpdateClientConnState (bg b) key as \<in> set cs" by (simp add: mem)
  qed
qed

lemma localityStep_matched:
  assumes "ok ts (ID l) \<longrightarrow>
     map_of (configs b) (ID l) = Some \<lparr>weight = Weight l, addrs = addrsLoop name (Endpoints l) None\<rparr>"
  shows "localityStep ts name (b, S, r, cs) l = (b, if ok ts (ID l) then insert (ID l) S else S, r, cs)"
proof (cases "ts (ID l)")
  case (Inl err)
  then show ?thesis by (simp add: localityStep_def ok_def)
next
  case (Inr lidJSON)
  then have "ok ts (ID l)" by (simp add: ok_def)
  with assms have m: "map_of (configs b) (ID l)
      = Some \<lparr>weight = Weight l, addrs = addrsLoop name (Endpoints l) None\<rparr>" by simp
  show ?thesis using Inr m \<open>ok ts (ID l)\<close> by (simp add: localityStep_def Let_def)
qed

lemma localitiesLoop_matched:
  "matched ts name (configs b) ls \<Longrightarrow>
   localitiesLoop ts name ls (b, S, r, cs) = (b, S \<union> okIDs ts ls, r, cs)"
proof (induction ls arbitrary: S)
  case Nil
  then show ?case by (simp add: okIDs_Nil)
next
  case (Cons l ls)
  have h: "ok ts (ID l) \<longrightarrow>
     map_of (configs b) (ID l) = Some \<lparr>weight = Weight l, addrs = addrsLoop name (Endpoints l) None\<rparr>"
    using Cons.prems by (simp add: matched_def)
  have m: "matched ts name (configs b) ls" using Cons.prems by (simp add: matched_def)
  show ?case
    by (simp add: localityStep_matched[OF h] Cons.IH[OF m] okIDs_Cons)
qed

lemma perPriority_unchanged:
  assumes "settled ts (configs b) ls" and "matched ts (subBalancerBuilder e) (configs b) ls"
  shows "handleEDSResponsePerPriority ts e b ls = (b, [])"
proof -
  have l: "localitiesLoop ts (subBalancerBuilder e) ls (b, {}, False, []) = (b, okIDs ts ls, False, [])"
    using localitiesLoop_matched[OF assms(2), of "{}" False "[]"] by simp
  obtain b2 r2 cs2 where d: "deleteLocalitiesLoop ts (okIDs ts ls) (map fst (configs b)) (b, False, []) = (b2, r2, cs2)"
    by (cases "deleteLocalitiesLoop ts (okIDs ts ls) (map fst (configs b)) (b, False, [])") auto
  have "\<forall>k \<in> set (map fst (configs b)). ok ts k \<longrightarrow> k \<in> okIDs ts ls"
    using assms(1) by (simp add: settled_def keys_def)
  with deleteLocalitiesLoop_spec[OF d] have "b2 = b" "r2 = False" "cs2 = []" by auto
  then show ?thesis using l d by (simp add: handleEDSResponsePerPriority_def)
qed

lemma localityStep_config:
  assumes "localityStep ts name (b, S, r, cs) l = (b', S', r', cs')" and "ok ts (ID l)"
  shows "map_of (configs b') (ID l)
           = Some \<lparr>weight = Weight l, addrs = addrsLoop name (Endpoints l) None\<rparr>
         \<and> (\<forall>k. k \<noteq> ID l \<longrightarrow> map_of (configs b') k = map_of (configs b) k)"
proof -
  from assms(2) obtain lidJSON where t: "ts (ID l) = Inr lidJSON"
    by (cases "ts (ID l)") (auto simp: ok_def)
  show ?thesis
  proof (cases "map_of (configs b) (ID l)")
    case None
    then show ?thesis using assms(1) t
      by (auto simp: localityStep_def Let_def update_conv' split: if_splits)
  next
    case (Some config)
    then show ?thesis using assms(1) t
      by (cases config) (auto simp: localityStep_def Let_def update_conv' split: if_splits)
  qed
qed

lemma localitiesLoop_configs:
  "localitiesLoop ts name ls (b, S, r, cs) = (b', S', r', cs') \<Longrightarrow>
   distinct (map ID (filter (\<lambda>l. ok ts (ID l)) ls)) \<Longrightarrow>
   matched ts name (configs b') ls
   \<and> (\<forall>k. k \<notin> okIDs ts ls \<longrightarrow> map_of (configs b') k = map_of (configs b) k)"
proof (induction ls arbitrary: b S r cs)
  case Nil
  then show ?case by (simp add: matched_def okIDs_Nil)
next
  case (Cons l ls)
  obtain b1 S1 r1 cs1 where st: "localityStep ts name (b, S, r, cs) l = (b1, S1, r1, cs1)"
    by (cases "localityStep ts name (b, S, r, cs) l") auto
  from Cons.prems(1) st have rest: "localitiesLoop ts name ls (b1, S1, r1, cs1) = (b', S', r', cs')"
    by simp
  have dist: "distinct (map ID (filter (\<lambda>l. ok ts (ID l)) ls))"
    using Cons.prems(2) by (simp split: if_splits)
  note ih = Cons.IH[OF rest dist]
  show ?case
  proof (cases "ok ts (ID l)")
    case True
    note sc = localityStep_config[OF st True]
    have notin: "ID l \<notin> okIDs ts ls"
      using Cons.prems(2) True by (auto simp: okIDs_def)
    have a: "map_of (configs b') (ID l)
           = Some \<lparr>weight = Weight l, addrs = addrsLoop name (Endpoints l) None\<rparr>"
      using ih notin sc by simp
    have "matched ts name (configs b') (l # ls)"
      using ih a by (simp add: matched_def)
    moreover have "\<forall>k. k \<notin> okIDs ts (l # ls) \<longrightarrow> map_of (configs b') k = map_of (configs b) k"
      using ih sc True by (auto simp: okIDs_Cons)
    ultimately show ?thesis by simp
  next
    case False
    then have "b1 = b" using localityStep_spec[OF st] by simp
    then show ?thesis using ih False by (simp add: matched_def okIDs_Cons)
  qed
qed

lemma deleteLocalitiesLoop_keeps:
  "deleteLocalitiesLoop ts S ks (b, r, cs) = (b', r', cs') \<Longrightarrow>
   \<forall>k \<in> S. map_of (configs b') k = map_of (configs b) k"
proof (induction ks arbitrary: b r cs)
  case Nil
  then show ?case by simp
next
  case (Cons k ks)
  show ?case
  proof (cases "ts k")
    case (Inl err)
    with Cons.prems have "deleteLocalitiesLoop ts S ks (b, r, cs) = (b', r', cs')" by simp
    from Cons.IH[OF this] show ?thesis .
  next
    case (Inr lidJSON)
    show ?thesis
    proof (cases "k \<in> S")
      case True
      with Cons.prems Inr have "deleteLocalitiesLoop ts S ks (b, r, cs) = (b', r', cs')" by simp
      from Cons.IH[OF this] show ?thesis .
    next
      case False
      with Cons.prems Inr
      have "deleteLocalitiesLoop ts S ks
              (b\<lparr>configs := AList.delete k (configs b)\<rparr>, True,
               cs @ [AggregatorRemove (stateAggregator b) lidJSON, GroupRemove (bg b) lidJSON])
            = (b', r', cs')" by simp
      from Cons.IH[OF this] show ?thesis using False by (auto simp: delete_conv')
    qed
  qed
qed

lemma perPriority_matches:
  assumes "handleEDSResponsePerPriority ts e b ls = (b', cs)"
    and "distinct (map ID (filter (\<lambda>l. ok ts (ID l)) ls))"
  shows "matched ts (subBalancerBuilder e) (configs b') ls"
proof -
  let ?name = "subBalancerBuilder e"
  obtain b1 S1 r1 cs1 where l: "localitiesLoop ts ?name ls (b, {}, False, []) = (b1, S1, r1, cs1)"
    by (cases "localitiesLoop ts ?name ls (b, {}, False, [])") auto
  obtain b2 r2 cs2 where d: "deleteLocalitiesLoop ts S1 (map fst (configs b1)) (b1, r1, cs1) = (b2, r2, cs2)"
    by (cases "deleteLocalitiesLoop ts S1 (map fst (configs b1)) (b1, r1, cs1)") auto
  have b': "b' = b2" using assms(1) l d by (simp add: handleEDSResponsePerPriority_def)
  from localitiesLoop_spec[OF l] have S1: "S1 = okIDs ts ls" by simp
  from localitiesLoop_configs[OF l assms(2)] have m1: "matched ts ?name (configs b1) ls" by simp
  from deleteLocalitiesLoop_keeps[OF d]
  have k: "\<forall>k \<in> okIDs ts ls. map_of (configs b2) k = map_of (configs b1) k" unfolding S1 .
  show ?thesis unfolding b' matched_def
  proof (intro ballI impI)
    fix l assume "l \<in> set ls" "ok ts (ID l)"
    then have "ID l \<in> okIDs ts ls" by (auto simp: okIDs_def)
    then have "map_of (configs b2) (ID l) = map_of (configs b1) (ID l)" using k by simp
    then show "map_of (configs b2) (ID l)
        = Some \<lparr>weight = Weight l, addrs = addrsLoop ?name (Endpoints l) None\<rparr>"
      using m1 \<open>l \<in> set ls\<close> \<open>ok ts (ID l)\<close> by (simp add: matched_def)
  qed
qed

lemma bucketLoop_map_of:
  "map_of (bucketLoop ls m) p =
     (if filter (\<lambda>l. Weight l \<noteq> 0 \<and> newPriorityType (Priority l) = p) ls = [] then map_of m p
      else Some ((case map_of m p of None \<Rightarrow> [] | Some old \<Rightarrow> old)
                 @ filter (\<lambda>l. Weight l \<noteq> 0 \<and> newPriorityType (Priority l) = p) ls))"
proof (induction ls arbitrary: m)
  case Nil
  then show ?case by simp
next
  case (Cons l ls)
  show ?case
  proof (cases "Weight l = 0")
    case True
    then show ?thesis using Cons[of m] by simp
  next
    case False
    let ?q = "newPriorityType (Priority l)"
    let ?m = "AList.update ?q ((case map_of m ?q of None \<Rightarrow> [] | Some ls \<Rightarrow> ls) @ [l]) m"
    have step: "bucketLoop (l # ls) m = bucketLoop ls ?m" using False by (simp add: Let_def)
    show ?thesis
    proof (cases "?q = p")
      case True
      have "map_of ?m p = Some ((case map_of m p of None \<Rightarrow> [] | Some ls \<Rightarrow> ls) @ [l])"
        using True by (simp add: update_conv')
      then show ?thesis unfolding step Cons[of ?m] using True False by simp
    next
      case F: False
      have "map_of ?m p = map_of m p" using F by (simp add: update_conv')
      then show ?thesis unfolding step Cons[of ?m] using F False by simp
    qed
  qed
qed

lemma bucket_distinct:
  assumes "distinct (map ID (elems (Localities u)))"
    and "(p, ls) \<in> set (bucketLoop (elems (Localities u)) [])"
  shows "distinct (map ID (filter (\<lambda>l. ok ts (ID l)) ls))"
proof -
  let ?nm = "bucketLoop (elems (Localities u)) []"
  have "distinct (map fst ?nm)" by (rule bucketLoop_distinct) simp
  then have "map_of ?nm p = Some ls" using assms(2) by simp
  then have "ls = filter (\<lambda>l. Weight l \<noteq> 0 \<and> newPriorityType (Priority l) = p) (elems (Localities u))"
    unfolding bucketLoop_map_of by (simp split: if_splits)
  then show ?thesis using assms(1) by (simp add: distinct_map_filter)
qed

lemma prioritiesLoop_entries:
  "distinct (map fst xs) \<Longrightarrow> prioritiesLoop ts xs (e, lo, ch) = (e', lo', ch') \<Longrightarrow>
   \<forall>(p, ls) \<in> set xs. \<exists>e0 b0. subBalancerBuilder e0 = subBalancerBuilder e
       \<and> map_of (priorityToLocalities e') p = Some (fst (handleEDSResponsePerPriority ts e0 b0 ls))"
proof (induction xs arbitrary: e lo ch)
  case Nil
  then show ?case by simp
next
  case (Cons x xs)
  obtain p ls where x: "x = (p, ls)" by (cases x)
  let ?e1 = "(case map_of (priorityToLocalities e) p of
                  None \<Rightarrow> (emit [NewGroup p] e)
                            \<lparr>priorityToLocalities :=
                               AList.update p \<lparr>bg = p, stateAggregator = p, configs = []\<rparr>
                                 (priorityToLocalities e)\<rparr>
                | Some b \<Rightarrow> e)"
  let ?b = "(case map_of (priorityToLocalities e) p of
                 None \<Rightarrow> \<lparr>bg = p, stateAggregator = p, configs = []\<rparr> | Some b \<Rightarrow> b)"
  let ?r = "handleEDSResponsePerPriority ts ?e1 ?b ls"
  let ?e2 = "(emit (snd ?r) ?e1)\<lparr>priorityToLocalities := AList.update p (fst ?r) (priorityToLocalities ?e1)\<rparr>"
  let ?lo = "if \<not> isSet lo \<or> higherThan lo p then p else lo"
  let ?ch = "case map_of (priorityToLocalities e) p of None \<Rightarrow> True | Some b \<Rightarrow> ch"
  have rest: "prioritiesLoop ts xs (?e2, ?lo, ?ch) = (e', lo', ch')"
    using Cons.prems(2) unfolding x prioritiesLoop_Cons by (simp add: Let_def)
  have dist: "distinct (map fst xs)" and pnot: "p \<notin> fst ` set xs"
    using Cons.prems(1) x by auto
  note ih = Cons.IH[OF dist rest]
  note p1 = prioritiesLoop_pass1[OF dist rest]
  have n1: "subBalancerBuilder ?e1 = subBalancerBuilder e"
    by (simp add: emit_def split: option.splits)
  have n2: "subBalancerBuilder ?e2 = subBalancerBuilder e"
    by (simp add: emit_def split: option.splits)
  have "map_of (priorityToLocalities e') p = map_of (priorityToLocalities ?e2) p"
    using p1 pnot by simp
  then have a: "map_of (priorityToLocalities e') p = Some (fst ?r)"
    by (simp add: update_conv')
  have "\<exists>e0 b0. subBalancerBuilder e0 = subBalancerBuilder e
       \<and> map_of (priorityToLocalities e') p = Some (fst (handleEDSResponsePerPriority ts e0 b0 ls))"
    using a n1 by blast
  moreover have "\<forall>(q, ls') \<in> set xs. \<exists>e0 b0. subBalancerBuilder e0 = subBalancerBuilder e
       \<and> map_of (priorityToLocalities e') q = Some (fst (handleEDSResponsePerPriority ts e0 b0 ls'))"
    using ih unfolding n2 .
  ultimately show ?case unfolding x by simp
qed

lemma emit_Nil: "emit [] e = e"
  by (simp add: emit_def)

lemma priorityToLocalities_same: "priorityToLocalities e = m \<Longrightarrow> e\<lparr>priorityToLocalities := m\<rparr> = e"
  by (cases e) auto

lemma prioritiesLoop_unchanged:
  "\<forall>(p, ls) \<in> set xs. \<exists>b. map_of (priorityToLocalities e) p = Some b
       \<and> settled ts (configs b) ls \<and> matched ts (subBalancerBuilder e) (configs b) ls \<Longrightarrow>
   prioritiesLoop ts xs (e, lo, ch) = (e, lowestOf xs lo, ch)"
proof (induction xs arbitrary: lo)
  case Nil
  then show ?case by simp
next
  case (Cons x xs)
  obtain p ls where x: "x = (p, ls)" by (cases x)
  from Cons.prems x obtain b where b: "map_of (priorityToLocalities e) p = Some b"
    and sb: "settled ts (configs b) ls" and mb: "matched ts (subBalancerBuilder e) (configs b) ls"
    by auto
  have r: "handleEDSResponsePerPriority ts e b ls = (b, [])"
    by (rule perPriority_unchanged[OF sb mb])
  have u: "AList.update p b (priorityToLocalities e) = priorityToLocalities e"
    by (rule update_triv[OF b])
  have rest: "\<forall>(p, ls) \<in> set xs. \<exists>b. map_of (priorityToLocalities e) p = Some b
       \<and> settled ts (configs b) ls \<and> matched ts (subBalancerBuilder e) (configs b) ls"
    using Cons.prems by simp
  show ?case
    unfolding x prioritiesLoop_Cons
    by (simp add: b r u emit_Nil priorityToLocalities_same Cons.IH[OF rest] Let_def)
qed

lemma prioritiesLoop_lowest:
  "fst (snd (prioritiesLoop ts xs (e, lo, ch))) = lowestOf xs lo"
proof (induction xs arbitrary: e lo ch)
  case Nil
  then show ?case by simp
next
  case (Cons x xs)
  obtain p ls where x: "x = (p, ls)" by (cases x)
  show ?case unfolding x prioritiesLoop_Cons by (simp add: Let_def Cons)
qed

lemma deletePrioritiesLoop_lowest:
  "deletePrioritiesLoop nm ks (e, ch) = (e', ch') \<Longrightarrow> priorityLowest e' = priorityLowest e"
proof (induction ks arbitrary: e ch)
  case Nil
  then show ?case by simp
next
  case (Cons k ks)
  show ?case
  proof (cases "map_of nm k = None \<and> map_of (priorityToLocalities e) k \<noteq> None")
    case True
    then obtain b where b: "map_of (priorityToLocalities e) k = Some b" by auto
    let ?e1 = "(emit [GroupClose (bg b)] e)
                  \<lparr>priorityToLocalities := AList.delete k (priorityToLocalities e),
                   priorityToState := AList.delete k (priorityToState e)\<rparr>"
    from Cons.prems True b have "deletePrioritiesLoop nm ks (?e1, True) = (e', ch')" by simp
    from Cons.IH[OF this] show ?thesis by (simp add: emit_def)
  next
    case False
    then have "deletePrioritiesLoop nm ks (e, ch) = (e', ch')"
      using Cons.prems by (auto split: option.splits)
    from Cons.IH[OF this] show ?thesis .
  qed
qed

lemma handleEDSResponse_after_distinct:
  fixes ts e u
  defines "nm \<equiv> bucketLoop (elems (Localities u)) []"
  defines "e1 \<equiv> handleEDSResponse ts e u"
  assumes d: "distinct (map ID (elems (Localities u)))"
  shows "priorityLowest e1 = lowestOf nm None
         \<and> (\<forall>(p, ls) \<in> set nm. \<exists>b. map_of (priorityToLocalities e1) p = Some b
               \<and> matched ts (subBalancerBuilder e1) (configs b) ls)"
proof -
  let ?e3 = "updateDrops (received e u) (Drops u)"
  obtain e4 lo ch where pl: "prioritiesLoop ts nm (?e3, None, False) = (e4, lo, ch)"
    by (cases "prioritiesLoop ts nm (?e3, None, False)") auto
  let ?e5 = "e4\<lparr>priorityLowest := lo\<rparr>"
  obtain e6 ch' where dl: "deletePrioritiesLoop nm (map fst (priorityToLocalities ?e5)) (?e5, ch) = (e6, ch')"
    by (cases "deletePrioritiesLoop nm (map fst (priorityToLocalities ?e5)) (?e5, ch)") auto
  have e1: "e1 = (if ch' then emit [HandlePriorityChange] e6 else e6)"
    unfolding e1_def handleEDSResponse_unfold nm_def[symmetric] using pl dl by (simp add: Let_def)
  have dist: "distinct (map fst nm)" unfolding nm_def by (rule bucketLoop_distinct) simp
  have lo: "lo = lowestOf nm None" using prioritiesLoop_lowest[of ts nm ?e3 None False] pl by simp
  have a: "priorityLowest e1 = lowestOf nm None"
    unfolding e1 using deletePrioritiesLoop_lowest[OF dl] lo by (simp add: emit_def)
  note p1 = prioritiesLoop_pass1[OF dist pl]
  note d1 = deletePrioritiesLoop_spec[OF dl]
  note en = prioritiesLoop_entries[OF dist pl]
  have m: "map_of (priorityToLocalities e1) = map_of (priorityToLocalities e6)"
    unfolding e1 by (simp add: emit_def)
  have n: "subBalancerBuilder e1 = subBalancerBuilder ?e3"
    unfolding e1 using p1 d1 by (simp add: sameConfig_def emit_def)
  have b: "\<forall>(p, ls) \<in> set nm. \<exists>b. map_of (priorityToLocalities e1) p = Some b
               \<and> matched ts (subBalancerBuilder e1) (configs b) ls"
  proof (clarify)
    fix p ls assume mem: "(p, ls) \<in> set nm"
    then have "p \<in> fst ` set nm" by force
    then have nn: "map_of nm p \<noteq> None" by (simp add: map_of_eq_None_iff)
    have "map_of (priorityToLocalities e6) p
            = (if p \<in> set (map fst (priorityToLocalities ?e5)) \<and> map_of nm p = None
               then None else map_of (priorityToLocalities ?e5) p)"
      using d1 by blast
    then have same: "map_of (priorityToLocalities e1) p = map_of (priorityToLocalities e4) p"
      unfolding m using nn by simp
    from en mem obtain e0 b0 where n0: "subBalancerBuilder e0 = subBalancerBuilder ?e3"
      and r: "map_of (priorityToLocalities e4) p = Some (fst (handleEDSResponsePerPriority ts e0 b0 ls))"
      by blast
    have dl: "distinct (map ID (filter (\<lambda>l. ok ts (ID l)) ls))"
      using bucket_distinct[OF d] mem unfolding nm_def by blast
    have "matched ts (subBalancerBuilder e0) (configs (fst (handleEDSResponsePerPriority ts e0 b0 ls))) ls"
      by (rule perPriority_matches[of ts e0 b0 ls _ "snd (handleEDSResponsePerPriority ts e0 b0 ls)"])
         (simp_all add: dl)
    then show "\<exists>b. map_of (priorityToLocalities e1) p = Some b
               \<and> matched ts (subBalancerBuilder e1) (configs b) ls"
      using same r n n0 by simp
  qed
  show ?thesis using a b by simp
qed

lemma handleEDSResponse_idempotent:
  assumes "distinct (map ID (elems (Localities u)))"
  shows "handleEDSResponse ts (handleEDSResponse ts e u) u = handleEDSResponse ts e u"
proof -
  define nm where "nm = bucketLoop (elems (Localities u)) []"
  define e1 where "e1 = handleEDSResponse ts e u"
  from handleEDSResponse_after[of ts e u]
  have rr: "respReceived e1" and dc: "dropConfig e1 = Drops u"
    and sett: "\<forall>(p, ls) \<in> set nm. \<exists>b. map_of (priorityToLocalities e1) p = Some b \<and> settled ts (configs b) ls"
    and ks: "\<forall>p \<in> keys (priorityToLocalities e1). map_of nm p \<noteq> None"
    unfolding nm_def e1_def by auto
  from handleEDSResponse_after_distinct[OF assms, of ts e]
  have lo: "priorityLowest e1 = lowestOf nm None"
    and mt: "\<forall>(p, ls) \<in> set nm. \<exists>b. map_of (priorityToLocalities e1) p = Some b
               \<and> matched ts (subBalancerBuilder e1) (configs b) ls"
    unfolding nm_def e1_def by auto
  have both: "\<forall>(p, ls) \<in> set nm. \<exists>b. map_of (priorityToLocalities e1) p = Some b
       \<and> settled ts (configs b) ls \<and> matched ts (subBalancerBuilder e1) (configs b) ls"
    using sett mt by fastforce
  have e3: "updateDrops (received e1 u) (Drops u) = e1"
    using rr dc by (simp add: received_again updateDrops_same)
  have pl: "prioritiesLoop ts nm (e1, None, False) = (e1, lowestOf nm None, False)"
    by (rule prioritiesLoop_unchanged[OF both])
  have e5: "e1\<lparr>priorityLowest := lowestOf nm None\<rparr> = e1"
    by (rule priorityLowest_same[OF lo])
  have "\<forall>p \<in> set (map fst (priorityToLocalities e1)). map_of nm p \<noteq> None"
    using ks by (simp add: keys_def)
  then have dl: "deletePrioritiesLoop nm (map fst (priorityToLocalities e1)) (e1, False) = (e1, False)"
    by (rule deletePrioritiesLoop_noop)
  show ?thesis
    unfolding e1_def[symmetric] handleEDSResponse_unfold[of ts e1 u] nm_def[symmetric] e3
    by (simp add: pl e5 dl Let_def)
qed

text \<open>
  C8. For every balancer state and every EndpointsUpdate \<open>u\<close>, the calls of a second
  \<open>handleEDSResponse(u)\<close> right after the first contain no Add and no Remove on any
  balancer group or aggregator: all of them are weight updates, address updates or
  rebuilds of an aggregated picker (no group is created or closed and the priority
  manager is not called either). When the localities of \<open>u\<close> have distinct IDs, as the
  data model requires, the second application finds every weight and address list equal
  and the drop config unchanged: it makes no call and leaves the balancer as it was.
\<close>

theorem second_application_adds_nothing:
  "(\<exists>cs. edsCalls (handleEDSResponse ts (handleEDSResponse ts e u) u)
            = edsCalls (handleEDSResponse ts e u) @ cs
        \<and> (\<forall>c \<in> set cs. isUpdateOnly c)
        \<and> filter isAddOrRemove cs = [])
   \<and> (distinct (map ID (elems (Localities u))) \<longrightarrow>
        handleEDSResponse ts (handleEDSResponse ts e u) u = handleEDSResponse ts e u)"
  using second_application_calls[of ts e u] handleEDSResponse_idempotent[of u ts e] by blast

lemma addrs_localityA:
  "addrsLoop weightedroundrobinName (Endpoints localityA) None
     = Some [\<lparr>Addr = ''a:1'', Attributes = Some 3, Metadata = Some 3\<rparr>,
             \<lparr>Addr = ''a:3'', Attributes = None, Metadata = None\<rparr>]"
  by (simp add: localityA_def endpointsOf_def append1_def elems_def SetAddrInfo_def)

lemma perPriority_localityA:
  "snd (handleEDSResponsePerPriority slashed weighted emptyGroup [localityA])
     = [AggregatorAdd (Some 0) ''r/a/'' 5,
        GroupAdd (Some 0) ''r/a/'' weightedroundrobinName,
        GroupUpdateClientConnState (Some 0) ''r/a/''
          (Some [\<lparr>Addr = ''a:1'', Attributes = Some 3, Metadata = Some 3\<rparr>,
                 \<lparr>Addr = ''a:3'', Attributes = None, Metadata = None\<rparr>])]"
proof -
  have n: "subBalancerBuilder weighted = weightedroundrobinName"
    by (simp add: weighted_def newEDSBalancerImpl_def)
  have i: "ID localityA = \<lparr>Region = ''r'', Zone = ''a'', SubZone = []\<rparr>" "Weight localityA = 5"
    by (simp_all add: localityA_def)
  have t: "slashed \<lparr>Region = ''r'', Zone = ''a'', SubZone = []\<rparr> = Inr ''r/a/''"
    by (simp add: slashed_def)
  have st: "localityStep slashed weightedroundrobinName (emptyGroup, {}, False, []) localityA
      = (emptyGroup\<lparr>configs := [(\<lparr>Region = ''r'', Zone = ''a'', SubZone = []\<rparr>,
                                    \<lparr>weight = 5, addrs = Some [\<lparr>Addr = ''a:1'', Attributes = Some 3, Metadata = Some 3\<rparr>,
                                                             \<lparr>Addr = ''a:3'', Attributes = None, Metadata = None\<rparr>]\<rparr>)]\<rparr>,
         {\<lparr>Region = ''r'', Zone = ''a'', SubZone = []\<rparr>}, False,
         [AggregatorAdd (Some 0) ''r/a/'' 5,
          GroupAdd (Some 0) ''r/a/'' weightedroundrobinName,
          GroupUpdateClientConnState (Some 0) ''r/a/''
            (Some [\<lparr>Addr = ''a:1'', Attributes = Some 3, Metadata = Some 3\<rparr>,
                   \<lparr>Addr = ''a:3'', Attributes = None, Metadata = None\<rparr>])])"
    unfolding localityStep_def by (simp add: i t addrs_localityA emptyGroup_def Let_def)
  show ?thesis
    unfolding handleEDSResponsePerPriority_def n by (simp add: st t)
qed

theorem forwarded_addresses_are_healthy_witness:
  "GroupUpdateClientConnState (Some 0) ''r/a/''
       (Some [\<lparr>Addr = ''a:1'', Attributes = Some 3, Metadata = Some 3\<rparr>,
              \<lparr>Addr = ''a:3'', Attributes = None, Metadata = None\<rparr>])
     \<in> set (snd (handleEDSResponsePerPriority slashed weighted emptyGroup [localityA]))
   \<and> (\<exists>l \<in> set [localityA]. slashed (ID l) = Inr ''r/a/''
         \<and> list_all2 (forwards (subBalancerBuilder weighted)) (filter usable (Endpoints l))
              [\<lparr>Addr = ''a:1'', Attributes = Some 3, Metadata = Some 3\<rparr>,
               \<lparr>Addr = ''a:3'', Attributes = None, Metadata = None\<rparr>])
   \<and> filter usable (Endpoints localityA)
       = [\<lparr>Address = ''a:1'', HealthStatus = EndpointHealthStatusHealthy, EndpointWeight = 3\<rparr>,
          \<lparr>Address = ''a:3'', HealthStatus = EndpointHealthStatusUnknown, EndpointWeight = 0\<rparr>]"
proof -
  let ?as = "Some [\<lparr>Addr = ''a:1'', Attributes = Some 3, Metadata = Some 3\<rparr>,
                   \<lparr>Addr = ''a:3'', Attributes = None, Metadata = None\<rparr>]"
  have m: "GroupUpdateClientConnState (Some 0) ''r/a/'' ?as
             \<in> set (snd (handleEDSResponsePerPriority slashed weighted emptyGroup [localityA]))"
    unfolding perPriority_localityA by simp
  have p: "handleEDSResponsePerPriority slashed weighted emptyGroup [localityA]
             = (fst (handleEDSResponsePerPriority slashed weighted emptyGroup [localityA]),
                snd (handleEDSResponsePerPriority slashed weighted emptyGroup [localityA]))"
    by simp
  from forwarded_addresses_are_healthy [OF p, THEN conjunct1, rule_format, OF m]
  have "\<exists>l \<in> set [localityA]. slashed (ID l) = Inr ''r/a/''
         \<and> list_all2 (forwards (subBalancerBuilder weighted)) (filter usable (Endpoints l)) (elems ?as)"
    by blast
  then have e: "\<exists>l \<in> set [localityA]. slashed (ID l) = Inr ''r/a/''
         \<and> list_all2 (forwards (subBalancerBuilder weighted)) (filter usable (Endpoints l))
              [\<lparr>Addr = ''a:1'', Attributes = Some 3, Metadata = Some 3\<rparr>,
               \<lparr>Addr = ''a:3'', Attributes = None, Metadata = None\<rparr>]"
    by (simp add: elems_def)
  have f: "filter usable (Endpoints localityA)
       = [\<lparr>Address = ''a:1'', HealthStatus = EndpointHealthStatusHealthy, EndpointWeight = 3\<rparr>,
          \<lparr>Address = ''a:3'', HealthStatus = EndpointHealthStatusUnknown, EndpointWeight = 0\<rparr>]"
    by (simp add: localityA_def endpointsOf_def usable_def)
  show ?thesis using m e f by blast
qed

theorem first_empty_update_fails_picks_witness:
  "(\<exists>cs. edsCalls (handleEDSResponse slashed (newEDSBalancerImpl True) EndpointsUpdate0)
            = UpdateState TransientFailure (ErrPicker ErrAllPrioritiesRemoved) # cs
        \<and> UpdateState TransientFailure (ErrPicker ErrAllPrioritiesRemoved) \<notin> set cs)
   \<and> balancerPick (ErrPicker ErrAllPrioritiesRemoved) (\<lambda>n. 0) ''m'' idle
       = Returned ((PickResult0, Some ErrAllPrioritiesRemoved), idle)
   \<and> respReceived (handleEDSResponse slashed (newEDSBalancerImpl True) twoPriorities)
   \<and> handleEDSResponse slashed
        (handleEDSResponse slashed (newEDSBalancerImpl True) EndpointsUpdate0) EndpointsUpdate0
       = handleEDSResponse slashed (newEDSBalancerImpl True) EndpointsUpdate0"
  using first_empty_update_fails_picks
          [of "newEDSBalancerImpl True" slashed "\<lambda>n. 0" "''m''" idle twoPriorities]
  by (simp add: newEDSBalancerImpl_def)

lemma twoPriorities_distinct: "distinct (map ID (elems (Localities twoPriorities)))"
  by (simp add: twoPriorities_def elems_def localityA_def localityB_def)

lemma twoPriorities_first_calls:
  "filter isAddOrRemove (edsCalls (handleEDSResponse slashed (newEDSBalancerImpl True) twoPriorities))
     = [AggregatorAdd (Some 0) ''r/a/'' 5, GroupAdd (Some 0) ''r/a/'' roundrobinName,
        AggregatorAdd (Some 1) ''r/b/'' 2, GroupAdd (Some 1) ''r/b/'' roundrobinName]"
  by (simp add: handleEDSResponse_def newEDSBalancerImpl_def twoPriorities_def EndpointsUpdate0_def
      updateDrops_def elems_def localityA_def localityB_def Let_def newPriorityType_def isSet_def
      higherThan_def handleEDSResponsePerPriority_def localityStep_def slashed_def emit_def)

theorem second_application_adds_nothing_witness:
  "(\<exists>cs. edsCalls (handleEDSResponse slashed
                   (handleEDSResponse slashed (newEDSBalancerImpl True) twoPriorities) twoPriorities)
           = edsCalls (handleEDSResponse slashed (newEDSBalancerImpl True) twoPriorities) @ cs
       \<and> filter isAddOrRemove cs = [])
   \<and> handleEDSResponse slashed
        (handleEDSResponse slashed (newEDSBalancerImpl True) twoPriorities) twoPriorities
       = handleEDSResponse slashed (newEDSBalancerImpl True) twoPriorities
   \<and> filter isAddOrRemove (edsCalls (handleEDSResponse slashed (newEDSBalancerImpl True) twoPriorities))
       = [AggregatorAdd (Some 0) ''r/a/'' 5, GroupAdd (Some 0) ''r/a/'' roundrobinName,
          AggregatorAdd (Some 1) ''r/b/'' 2, GroupAdd (Some 1) ''r/b/'' roundrobinName]"
  using second_application_adds_nothing [of slashed "newEDSBalancerImpl True" twoPriorities]
    twoPriorities_distinct twoPriorities_first_calls
  by blast


end
